theory Spec2Isabelle
  imports Complex_Main "HOL-Library.Word" "HOL-Library.Log_Nat"
begin

unbundle bit_operations_syntax

section \<open>The serial connection (class BluetoothPrinter, bt_printer.py)\<close>

text \<open>
  The transport is pyserial, an external library. What it does on each call is an input
  of the model: the printer state carries one script per transport operation, indexed by
  the number of calls made so far, that says whether the call returns or raises. The state
  also records every call that reached the transport, so that the order of the writes and
  the number of opens can be observed.
\<close>

type_synonym byte = "8 word"

datatype io_outcome = Done | SerialException | OtherException

datatype open_outcome = Opened | Unopened | OpenSerialException | OpenOtherException

record serial =
  is_open :: bool

record bluetooth_printer =
  connection :: "serial option"
  open_calls :: nat
  close_calls :: nat
  attempts :: "(byte list \<times> io_outcome) list"
  flush_calls :: nat
  open_script :: "nat \<Rightarrow> open_outcome"
  write_script :: "nat \<Rightarrow> io_outcome"
  flush_script :: "nat \<Rightarrow> io_outcome"

text \<open>\<^verbatim>\<open>is_connected\<close>: \<^verbatim>\<open>self.connection is not None and self.connection.is_open\<close>.\<close>

definition is_connected :: "bluetooth_printer \<Rightarrow> bool" where
  "is_connected p = (case connection p of None \<Rightarrow> False | Some c \<Rightarrow> is_open c)"

text \<open>
  \<^verbatim>\<open>connect\<close>: returns at once when the handle is open; otherwise constructs
  \<^verbatim>\<open>serial.Serial(...)\<close>. When the constructor raises, the assignment to
  \<^verbatim>\<open>self.connection\<close> does not happen. The settle delay is not modelled.
\<close>

definition connect :: "bluetooth_printer \<Rightarrow> bool \<times> bluetooth_printer" where
  "connect p =
     (if is_connected p then (True, p)
      else
        let p1 = p\<lparr>open_calls := open_calls p + 1\<rparr> in
        case open_script p (open_calls p) of
          Opened \<Rightarrow> (True, p1\<lparr>connection := Some \<lparr>is_open = True\<rparr>\<rparr>)
        | Unopened \<Rightarrow> (False, p1\<lparr>connection := Some \<lparr>is_open = False\<rparr>\<rparr>)
        | OpenSerialException \<Rightarrow> (False, p1)
        | OpenOtherException \<Rightarrow> (False, p1))"

text \<open>\<^verbatim>\<open>disconnect\<close>: closes and forgets the handle only when it is open.\<close>

definition disconnect :: "bluetooth_printer \<Rightarrow> bluetooth_printer" where
  "disconnect p =
     (if is_connected p
      then p\<lparr>connection := None, close_calls := close_calls p + 1\<rparr>
      else p)"

text \<open>
  \<^verbatim>\<open>send_raw\<close>: the guard, then \<^verbatim>\<open>write\<close>, then \<^verbatim>\<open>flush\<close>; both handlers
  return False. The byte count that \<^verbatim>\<open>write\<close> returns is only logged. The
  \<^verbatim>\<open>debug\<close> flag only logs and is left out.
\<close>

definition send_raw :: "bluetooth_printer \<Rightarrow> byte list \<Rightarrow> bool \<times> bluetooth_printer" where
  "send_raw p data =
     (if \<not> is_connected p then (False, p)
      else
        let w = write_script p (length (attempts p));
            p1 = p\<lparr>attempts := attempts p @ [(data, w)]\<rparr>
        in case w of
             Done \<Rightarrow>
               (let f = flush_script p1 (flush_calls p1);
                    p2 = p1\<lparr>flush_calls := flush_calls p1 + 1\<rparr>
                in case f of Done \<Rightarrow> (True, p2)
                   | SerialException \<Rightarrow> (False, p2)
                   | OtherException \<Rightarrow> (False, p2))
           | SerialException \<Rightarrow> (False, p1)
           | OtherException \<Rightarrow> (False, p1))"

text \<open>
  Python strings are modelled as lists of 8-bit characters, read as the code points
  0 to 255. \<^verbatim>\<open>text.encode("utf-8")\<close> never raises on them: a code point below 128
  is one byte, the others are two.
\<close>

definition utf8_char :: "char \<Rightarrow> byte list" where
  "utf8_char c =
     (let n = (of_char c :: nat) in
      if n < 128 then [of_nat n]
      else [of_nat (192 + n div 64), of_nat (128 + n mod 64)])"

definition utf8 :: "string \<Rightarrow> byte list" where
  "utf8 s = concat (map utf8_char s)"

text \<open>\<^verbatim>\<open>send_text\<close> with the default encoding, the only one the label paths use.\<close>

definition send_text :: "bluetooth_printer \<Rightarrow> string \<Rightarrow> bool \<times> bluetooth_printer" where
  "send_text p s = send_raw p (utf8 s)"

text \<open>The bytes that the transport accepted, in order.\<close>

definition written :: "bluetooth_printer \<Rightarrow> byte list list" where
  "written p = map fst (filter (\<lambda>a. snd a = Done) (attempts p))"

text \<open>A printer as \<^verbatim>\<open>__init__\<close> leaves it, on a transport that never fails.\<close>

definition fresh_printer :: bluetooth_printer where
  "fresh_printer =
     \<lparr>connection = None, open_calls = 0, close_calls = 0, attempts = [], flush_calls = 0,
      open_script = (\<lambda>_. Opened), write_script = (\<lambda>_. Done), flush_script = (\<lambda>_. Done)\<rparr>"

definition connected_printer :: bluetooth_printer where
  "connected_printer = snd (connect fresh_printer)"

section \<open>Label commands (TSPL text)\<close>

text \<open>\<^verbatim>\<open>str(n)\<close> of a Python int, as the f-strings format it: decimal, with a minus sign.\<close>

fun digits :: "nat \<Rightarrow> string" where
  "digits n =
     (if n < 10 then [char_of (48 + n)]
      else digits (n div 10) @ [char_of (48 + n mod 10)])"

declare digits.simps [simp del]

definition str_int :: "int \<Rightarrow> string" where
  "str_int i = (if i < 0 then CHR ''-'' # digits (nat (- i)) else digits (nat i))"

abbreviation LF :: char where "LF \<equiv> CHR 0x0A"
abbreviation DQUOTE :: char where "DQUOTE \<equiv> CHR 0x22"
abbreviation BACKSLASH :: char where "BACKSLASH \<equiv> CHR 0x5C"

text \<open>
  The four lines that both label builders start with:
  \<^verbatim>\<open>SIZE {w} mm, {h} mm\<close>, \<^verbatim>\<open>GAP {g} mm, 0 mm\<close>, \<^verbatim>\<open>DIRECTION 1\<close>, \<^verbatim>\<open>CLS\<close>.
\<close>

definition tspl_setup :: "int \<Rightarrow> int \<Rightarrow> int \<Rightarrow> string" where
  "tspl_setup label_width_mm label_height_mm gap_mm =
     ''SIZE '' @ str_int label_width_mm @ '' mm, '' @ str_int label_height_mm @ '' mm'' @ [LF] @
     ''GAP '' @ str_int gap_mm @ '' mm, 0 mm'' @ [LF] @
     ''DIRECTION 1'' @ [LF] @
     ''CLS'' @ [LF]"

text \<open>\<^verbatim>\<open>text.split('\n')\<close>: the pieces between separators; never an empty list.\<close>

fun split_on :: "char \<Rightarrow> string \<Rightarrow> string list" where
  "split_on sep [] = [[]]"
| "split_on sep (c # cs) =
     (if c = sep then [] # split_on sep cs
      else (case split_on sep cs of [] \<Rightarrow> [[c]] | l # ls \<Rightarrow> (c # l) # ls))"

text \<open>
  \<^verbatim>\<open>str.isspace\<close> on the code points below 256, and \<^verbatim>\<open>str.strip()\<close>, which removes
  such characters at both ends.
\<close>

definition isspace :: "char \<Rightarrow> bool" where
  "isspace c = ((of_char c :: nat) \<in> {9, 10, 11, 12, 13, 28, 29, 30, 31, 32, 133, 160})"

definition strip :: "string \<Rightarrow> string" where
  "strip s = rev (dropWhile isspace (rev (dropWhile isspace s)))"

text \<open>\<^verbatim>\<open>line.replace('"', '\\"')\<close>.\<close>

definition escape_quotes :: "string \<Rightarrow> string" where
  "escape_quotes s = concat (map (\<lambda>c. if c = DQUOTE then [BACKSLASH, DQUOTE] else [c]) s)"

text \<open>\<^verbatim>\<open>TEXT {x},{current_y},"{font}",0,1,1,"{escaped_text}"\<close> and the line feed.\<close>

definition text_command :: "int \<Rightarrow> int \<Rightarrow> string \<Rightarrow> string \<Rightarrow> string" where
  "text_command x current_y font escaped_text =
     ''TEXT '' @ str_int x @ '','' @ str_int current_y @ '','' @ [DQUOTE] @ font @ [DQUOTE] @
     '',0,1,1,'' @ [DQUOTE] @ escaped_text @ [DQUOTE] @ [LF]"

text \<open>
  The loop over the lines of \<^verbatim>\<open>print_label_tspl\<close>; its state is the command built so
  far and \<^verbatim>\<open>current_y\<close>.
\<close>

fun add_text_lines :: "int \<Rightarrow> string \<Rightarrow> string list \<Rightarrow> string \<times> int \<Rightarrow> string \<times> int" where
  "add_text_lines x font [] (tspl_cmd, current_y) = (tspl_cmd, current_y)"
| "add_text_lines x font (line # lines) (tspl_cmd, current_y) =
     (if strip line \<noteq> []
      then add_text_lines x font lines
             (tspl_cmd @ text_command x current_y font (escape_quotes line), current_y + 40)
      else add_text_lines x font lines (tspl_cmd, current_y))"

definition label_command :: "string \<Rightarrow> int \<Rightarrow> int \<Rightarrow> int \<Rightarrow> string \<Rightarrow> int \<Rightarrow> int \<Rightarrow> string" where
  "label_command text label_width_mm label_height_mm gap_mm font x y =
     (let lines = split_on LF text;
          tspl_cmd = tspl_setup label_width_mm label_height_mm gap_mm;
          tspl_cmd = fst (add_text_lines x font lines (tspl_cmd, y));
          tspl_cmd = tspl_cmd @ ''PRINT 1'' @ [LF];
          tspl_cmd = tspl_cmd @ [LF]
      in tspl_cmd)"

text \<open>\<^verbatim>\<open>print_label_tspl\<close>: the guard, then the whole command in one \<^verbatim>\<open>send_text\<close>.\<close>

definition print_label_tspl ::
  "bluetooth_printer \<Rightarrow> string \<Rightarrow> bool \<Rightarrow> int \<Rightarrow> int \<Rightarrow> int \<Rightarrow> string \<Rightarrow> int \<Rightarrow> int \<Rightarrow>
   bool \<times> bluetooth_printer" where
  "print_label_tspl p text cut_after label_width_mm label_height_mm gap_mm font x y =
     (if \<not> is_connected p then (False, p)
      else send_text p (label_command text label_width_mm label_height_mm gap_mm font x y))"

section \<open>Images and the bitmap encoder\<close>

text \<open>
  A Pillow image: its mode, its size and its pixel access object
  (\<^verbatim>\<open>pixels[x, y]\<close>, meaningful for \<open>x < width\<close> and \<open>y < height\<close>). In mode 1 a pixel
  reads 0 (black) or 255 (white).
\<close>

datatype img_mode = Mode1 | ModeL | ModeOther

record image =
  mode :: img_mode
  width :: nat
  height :: nat
  pixel :: "nat \<Rightarrow> nat \<Rightarrow> nat"

text \<open>
  What the module takes from outside: the import flag \<^verbatim>\<open>PDF_SUPPORT\<close>, and the Pillow
  operations that are not modelled pixel by pixel, each returning \<open>None\<close> where the
  library raises: the dithering conversion \<^verbatim>\<open>image.convert('L').convert('1')\<close> and the
  Lanczos \<^verbatim>\<open>resize\<close>. The border heuristic \<^verbatim>\<open>_crop_to_label\<close> is taken as a
  parameter too: what is proved holds whatever it returns.
\<close>

record deps =
  PDF_SUPPORT :: bool
  convert_1 :: "image \<Rightarrow> image option"
  resize :: "image \<Rightarrow> int \<times> int \<Rightarrow> image option"
  crop_to_label :: "image \<Rightarrow> image option"

text \<open>
  The inner loop over \<^verbatim>\<open>bit in range(8)\<close>: a black pixel (value 0) inside the row sets
  bit \<open>7 - bit\<close> of the byte.
\<close>

definition byte_val :: "image \<Rightarrow> nat \<Rightarrow> nat \<Rightarrow> byte" where
  "byte_val img row byte_col =
     fold (\<lambda>bit b.
             let pixel_x = byte_col * 8 + bit in
             if pixel_x < width img \<and> pixel img pixel_x row = 0
             then b OR push_bit (7 - bit) 1 else b)
          [0..<8] 0"

definition width_bytes :: "image \<Rightarrow> nat" where
  "width_bytes img = (width img + 7) div 8"

definition bitmap_data :: "image \<Rightarrow> byte list" where
  "bitmap_data img =
     concat (map (\<lambda>row. map (\<lambda>byte_col. byte_val img row byte_col) [0..<width_bytes img])
                 [0..<height img])"

definition bitmap_header :: "image \<Rightarrow> int \<Rightarrow> int \<Rightarrow> int \<Rightarrow> int \<Rightarrow> int \<Rightarrow> string" where
  "bitmap_header img label_width_mm label_height_mm gap_mm x y =
     tspl_setup label_width_mm label_height_mm gap_mm @
     ''BITMAP '' @ str_int x @ '','' @ str_int y @ '','' @ str_int (int (width_bytes img)) @
     '','' @ str_int (int (height img)) @ '',0,''"

definition print_cmd :: string where
  "print_cmd = ''PRINT 1'' @ [LF, LF]"

text \<open>
  \<^verbatim>\<open>print_image_tspl\<close>: the two guards, the conversion to mode 1 when needed, then the
  three sends, whose results are dropped, and \<^verbatim>\<open>return True\<close>.
\<close>

definition print_image_tspl ::
  "deps \<Rightarrow> bluetooth_printer \<Rightarrow> image \<Rightarrow> int \<Rightarrow> int \<Rightarrow> int \<Rightarrow> int \<Rightarrow> int \<Rightarrow> bool \<times> bluetooth_printer" where
  "print_image_tspl D p img label_width_mm label_height_mm gap_mm x y =
     (if \<not> PDF_SUPPORT D then (False, p)
      else if \<not> is_connected p then (False, p)
      else
        case (if mode img \<noteq> Mode1 then convert_1 D img else Some img) of
          None \<Rightarrow> (False, p)
        | Some img \<Rightarrow>
            let tspl_cmd = bitmap_header img label_width_mm label_height_mm gap_mm x y;
                p1 = snd (send_text p tspl_cmd);
                p2 = snd (send_raw p1 (bitmap_data img));
                p3 = snd (send_text p2 print_cmd)
            in (True, p3))"

text \<open>Two sample images of 9 by 2 pixels: all ink, and all background.\<close>

definition ink_9x2 :: image where
  "ink_9x2 = \<lparr>mode = Mode1, width = 9, height = 2, pixel = (\<lambda>x y. 0)\<rparr>"

definition blank_9x2 :: image where
  "blank_9x2 = \<lparr>mode = Mode1, width = 9, height = 2, pixel = (\<lambda>x y. 255)\<rparr>"

text \<open>
  A connected printer whose transport raises on every write, and an environment in which
  the image support is present, with stand-ins for the library operations: the resize
  here only sets the new size.
\<close>

definition failing_printer :: bluetooth_printer where
  "failing_printer = connected_printer\<lparr>write_script := (\<lambda>_. SerialException)\<rparr>"

definition sample_deps :: deps where
  "sample_deps =
     \<lparr>PDF_SUPPORT = True, convert_1 = Some,
      resize = (\<lambda>img size. case size of (w, h) \<Rightarrow>
                  if w < 0 \<or> h < 0 then None else Some (img\<lparr>width := nat w, height := nat h\<rparr>)),
      crop_to_label = Some\<rparr>"

text \<open>
  The text label command read literally from the specification, which prints one TEXT line
  for every line that is not the empty string. It is compared with \<open>label_command\<close> below.
\<close>

definition spec_label_command :: "string \<Rightarrow> int \<Rightarrow> int \<Rightarrow> int \<Rightarrow> string \<Rightarrow> int \<Rightarrow> int \<Rightarrow> string" where
  "spec_label_command text label_width_mm label_height_mm gap_mm font x y =
     (let printed = filter (\<lambda>line. line \<noteq> []) (split_on LF text) in
      tspl_setup label_width_mm label_height_mm gap_mm @
      concat (map (\<lambda>i. text_command x (y + 40 * int i) font (escape_quotes (printed ! i)))
                  [0..<length printed]) @
      ''PRINT 1'' @ [LF] @ [LF])"

section \<open>Python floats\<close>

text \<open>
  The pipeline computes sizes with Python floats (IEEE binary64) and cuts them with
  \<^verbatim>\<open>int()\<close>, and the rounding shows in the results: \<^verbatim>\<open>int(11 * (15 / 11))\<close> is 14.
  So floats are modelled as the rationals they denote, and every float operation as the
  exact operation followed by \<open>fl\<close>, rounding to the nearest value with a 53-bit
  significand, ties to even. The exponent range is not modelled (no overflow, no
  subnormals): \<open>fl\<close> is the binary64 rounding for magnitudes between \<open>2 powi (-1022)\<close>
  and \<open>2 powi 1024\<close>, far outside what label sizes reach.

  \<open>ilog2 x\<close> is the exponent of \<open>x > 0\<close>, the integer \<open>e\<close> with
  \<open>2 powi e \<le> x < 2 powi (e + 1)\<close>.
\<close>

definition ilog2 :: "rat \<Rightarrow> int" where
  "ilog2 x = (if 1 \<le> x then bitlen \<lfloor>x\<rfloor> - 1 else - bitlen (\<lceil>1 / x\<rceil> - 1))"

definition round_half_even :: "rat \<Rightarrow> int" where
  "round_half_even x =
     (let f = \<lfloor>x\<rfloor>; d = x - of_int f in
      if d < 1 / 2 then f else if 1 / 2 < d then f + 1 else if even f then f else f + 1)"

definition fl :: "rat \<Rightarrow> rat" where
  "fl x =
     (if x = 0 then 0
      else
        let e = ilog2 \<bar>x\<bar> - 52;
            m = round_half_even (\<bar>x\<bar> / (2 powi e))
        in sgn x * of_int m * (2 powi e))"

text \<open>\<^verbatim>\<open>int(x)\<close> of a float: truncation toward zero.\<close>

definition py_int :: "rat \<Rightarrow> int" where
  "py_int x = (if 0 \<le> x then \<lfloor>x\<rfloor> else \<lceil>x\<rceil>)"


text \<open>
  \<^verbatim>\<open>int(label_mm * dpi / 25.4)\<close>: the product is an exact int, it is converted to a
  float and divided by the float literal 25.4.
\<close>

definition target_dots :: "int \<Rightarrow> int \<Rightarrow> int" where
  "target_dots label_mm dpi = py_int (fl (fl (of_int (label_mm * dpi)) / fl (254 / 10)))"

section \<open>The PDF pipeline (print_pdf)\<close>

text \<open>
  What the first lines of \<^verbatim>\<open>print_pdf\<close> get from PyMuPDF: the file is missing, it
  cannot be opened or rendered (an exception), it has no page, or page 0 rendered at
  300 dpi and converted to grayscale.
\<close>

datatype pdf_source = Missing | Unreadable | Empty | Rendered image

definition render_dpi :: int where
  "render_dpi = 300"

text \<open>
  Pillow operations that are modelled pixel by pixel. \<^verbatim>\<open>image.crop(box)\<close> is used
  here only with boxes clamped to the image. A box is (left, upper, right, lower), as
  Pillow names it: the source's \<^verbatim>\<open>top\<close> and \<^verbatim>\<open>bottom\<close> are written \<open>upper\<close> and
  \<open>lower\<close> throughout.
\<close>

definition crop :: "image \<Rightarrow> int \<times> int \<times> int \<times> int \<Rightarrow> image" where
  "crop img box =
     (case box of (left, upper, right, lower) \<Rightarrow>
        \<lparr>mode = mode img, width = nat (right - left), height = nat (lower - upper),
         pixel = (\<lambda>x y. pixel img (nat left + x) (nat upper + y))\<rparr>)"

text \<open>
  \<^verbatim>\<open>image.rotate(90, expand=True)\<close> is Pillow's transposition \<^verbatim>\<open>ROTATE_90\<close>, counter
  clockwise, onto a canvas of the swapped size; \<^verbatim>\<open>image.rotate(180, expand=False)\<close> is
  \<^verbatim>\<open>ROTATE_180\<close>.
\<close>

definition rotate_90 :: "image \<Rightarrow> image" where
  "rotate_90 img =
     \<lparr>mode = mode img, width = height img, height = width img,
      pixel = (\<lambda>x y. pixel img (width img - 1 - y) x)\<rparr>"

definition rotate_180 :: "image \<Rightarrow> image" where
  "rotate_180 img =
     img\<lparr>pixel := (\<lambda>x y. pixel img (width img - 1 - x) (height img - 1 - y))\<rparr>"

text \<open>
  \<^verbatim>\<open>Image.new('L', (w, h), color)\<close>, which raises on a negative size, and
  \<^verbatim>\<open>dst.paste(src, (x_offset, y_offset))\<close>, which clips to the canvas.
\<close>

definition new_image :: "int \<Rightarrow> int \<Rightarrow> nat \<Rightarrow> image option" where
  "new_image w h color =
     (if w < 0 \<or> h < 0 then None
      else Some \<lparr>mode = ModeL, width = nat w, height = nat h, pixel = (\<lambda>x y. color)\<rparr>)"

definition paste :: "image \<Rightarrow> image \<Rightarrow> int \<times> int \<Rightarrow> image" where
  "paste dst src offset =
     (case offset of (x_offset, y_offset) \<Rightarrow>
        dst\<lparr>pixel := (\<lambda>x y.
          if x_offset \<le> int x \<and> int x < x_offset + int (width src) \<and>
             y_offset \<le> int y \<and> int y < y_offset + int (height src)
          then pixel src (nat (int x - x_offset)) (nat (int y - y_offset))
          else pixel dst x y)\<rparr>)"

text \<open>
  Lines 434 to 445: the manual coordinates are multiplied by
  \<^verbatim>\<open>scale_factor = render_dpi / 150.0\<close>, cut by \<^verbatim>\<open>int()\<close> and clamped to the image.
\<close>

definition manual_crop_box :: "int \<times> int \<times> int \<times> int \<Rightarrow> image \<Rightarrow> int \<times> int \<times> int \<times> int" where
  "manual_crop_box manual_crop_coords img =
     (let scale_factor = fl (fl (of_int render_dpi) / fl 150) in
      case manual_crop_coords of (left, upper, right, lower) \<Rightarrow>
        let left = py_int (fl (fl (of_int left) * scale_factor));
            upper = py_int (fl (fl (of_int upper) * scale_factor));
            right = py_int (fl (fl (of_int right) * scale_factor));
            lower = py_int (fl (fl (of_int lower) * scale_factor));
            left = max 0 (min left (int (width img)));
            right = max 0 (min right (int (width img)));
            upper = max 0 (min upper (int (height img)));
            lower = max 0 (min lower (int (height img)))
        in (left, upper, right, lower))"

text \<open>
  Lines 433 to 453: manual crop if coordinates are given, else the border heuristic if
  \<^verbatim>\<open>auto_crop\<close>, else nothing.
\<close>

definition crop_stage ::
  "deps \<Rightarrow> image \<Rightarrow> (int \<times> int \<times> int \<times> int) option \<Rightarrow> bool \<Rightarrow> image option" where
  "crop_stage D img manual_crop_coords auto_crop =
     (case manual_crop_coords of
        Some coords \<Rightarrow>
          (case manual_crop_box coords img of (left, upper, right, lower) \<Rightarrow>
             if right > left \<and> lower > upper
             then Some (crop img (left, upper, right, lower))
             else Some img)
      | None \<Rightarrow> if auto_crop then crop_to_label D img else Some img)"

text \<open>
  Lines 462 to 474. The two aspect ratios are computed and never used, but their divisions
  raise \<^verbatim>\<open>ZeroDivisionError\<close> on a zero height.
\<close>

definition rotate_stage :: "image \<Rightarrow> int \<Rightarrow> int \<Rightarrow> bool \<Rightarrow> image option" where
  "rotate_stage img target_width_dots target_height_dots auto_rotate =
     (if height img = 0 then None
      else if target_height_dots = 0 then None
      else if auto_rotate then
        let img_is_landscape = width img > height img;
            label_is_landscape = target_width_dots > target_height_dots
        in if img_is_landscape \<noteq> label_is_landscape then Some (rotate_90 img) else Some img
      else Some img)"

text \<open>
  Lines 477 to 479.
\<close>

definition flip_stage :: "image \<Rightarrow> bool \<Rightarrow> image" where
  "flip_stage img flip_vertical = (if flip_vertical then rotate_180 img else img)"

text \<open>
  Lines 482 to 487: the two ratios are int by int true divisions, the smaller one scales
  both sides, and \<^verbatim>\<open>int()\<close> cuts the results.
\<close>

definition scaled_size :: "int \<Rightarrow> int \<Rightarrow> nat \<Rightarrow> nat \<Rightarrow> (int \<times> int) option" where
  "scaled_size target_width_dots target_height_dots img_w img_h =
     (if img_w = 0 \<or> img_h = 0 then None
      else
        let scale_w = fl (of_int target_width_dots / of_int (int img_w));
            scale_h = fl (of_int target_height_dots / of_int (int img_h));
            scale = min scale_w scale_h;
            new_width = py_int (fl (fl (of_int (int img_w)) * scale));
            new_height = py_int (fl (fl (of_int (int img_h)) * scale))
        in Some (new_width, new_height))"

text \<open>
  Lines 431 to 492 together: crop, target dots, rotation, flip, and the Lanczos resize
  to the scaled size. The result is the scaled image with \<^verbatim>\<open>new_width\<close> and
  \<^verbatim>\<open>new_height\<close>.
\<close>

definition scaled_stage ::
  "deps \<Rightarrow> image \<Rightarrow> int \<Rightarrow> int \<Rightarrow> int \<Rightarrow> bool \<Rightarrow> bool \<Rightarrow> (int \<times> int \<times> int \<times> int) option \<Rightarrow> bool \<Rightarrow>
   (image \<times> int \<times> int) option" where
  "scaled_stage D img label_width_mm label_height_mm dpi auto_rotate auto_crop manual_crop_coords
     flip_vertical =
     (case crop_stage D img manual_crop_coords auto_crop of
        None \<Rightarrow> None
      | Some cropped \<Rightarrow>
          let target_width_dots = target_dots label_width_mm dpi;
              target_height_dots = target_dots label_height_mm dpi
          in case rotate_stage cropped target_width_dots target_height_dots auto_rotate of
               None \<Rightarrow> None
             | Some rotated \<Rightarrow>
                 (case scaled_size target_width_dots target_height_dots
                         (width rotated) (height rotated) of
                    None \<Rightarrow> None
                  | Some (new_width, new_height) \<Rightarrow>
                      (case resize D (flip_stage rotated flip_vertical) (new_width, new_height) of
                         None \<Rightarrow> None
                       | Some scaled \<Rightarrow> Some (scaled, new_width, new_height))))"

text \<open>
  The normal flow of lines 519 to 522 and 525 to 528: a white canvas of the target size
  with the scaled image pasted in the middle.
\<close>

definition centered :: "image \<Rightarrow> int \<Rightarrow> int \<Rightarrow> int \<Rightarrow> int \<Rightarrow> image option" where
  "centered img target_width_dots target_height_dots new_width new_height =
     (case new_image target_width_dots target_height_dots 255 of
        None \<Rightarrow> None
      | Some final_image \<Rightarrow>
          let x_offset = (target_width_dots - new_width) div 2;
              y_offset = (target_height_dots - new_height) div 2
          in Some (paste final_image img (x_offset, y_offset)))"

text \<open>
  Lines 494 to 528.
\<close>

definition compose_stage ::
  "deps \<Rightarrow> image \<Rightarrow> int \<Rightarrow> int \<Rightarrow> int \<Rightarrow> int \<Rightarrow> (int \<times> int \<times> int \<times> int) option \<Rightarrow> image option" where
  "compose_stage D img target_width_dots target_height_dots new_width new_height
     manual_crop_coords =
     (case manual_crop_coords of
        Some (left, upper, right, lower) \<Rightarrow>
          let left = max 0 (min left target_width_dots);
              right = max 0 (min right target_width_dots);
              upper = max 0 (min upper target_height_dots);
              lower = max 0 (min lower target_height_dots)
          in if right > left \<and> lower > upper
             then (case centered img target_width_dots target_height_dots new_width new_height of
                     None \<Rightarrow> None
                   | Some temp_final \<Rightarrow>
                       resize D (crop temp_final (left, upper, right, lower))
                         (target_width_dots, target_height_dots))
             else centered img target_width_dots target_height_dots new_width new_height
      | None \<Rightarrow> centered img target_width_dots target_height_dots new_width new_height)"

text \<open>
  Lines 532 to 536: the threshold at 128 into mode 1, and the optional inversion
  (\<^verbatim>\<open>ImageOps.invert\<close> on values that are 0 or 255, on which the conversions back and
  forth change nothing).
\<close>

definition binarize :: "image \<Rightarrow> image" where
  "binarize img = img\<lparr>mode := Mode1, pixel := (\<lambda>x y. if pixel img x y < 128 then 0 else 255)\<rparr>"

definition invert_image :: "image \<Rightarrow> image" where
  "invert_image img = img\<lparr>mode := Mode1, pixel := (\<lambda>x y. 255 - pixel img x y)\<rparr>"

definition finish_stage :: "image \<Rightarrow> bool \<Rightarrow> image" where
  "finish_stage final_image invert =
     (let final_image = binarize final_image
      in if invert then invert_image final_image else final_image)"

text \<open>
  The whole image pipeline of \<^verbatim>\<open>print_pdf\<close>; \<open>None\<close> where the code raises, which the
  handler turns into \<^verbatim>\<open>return False\<close>.
\<close>

definition label_image ::
  "deps \<Rightarrow> image \<Rightarrow> int \<Rightarrow> int \<Rightarrow> int \<Rightarrow> bool \<Rightarrow> bool \<Rightarrow> bool \<Rightarrow>
   (int \<times> int \<times> int \<times> int) option \<Rightarrow> bool \<Rightarrow> image option" where
  "label_image D img label_width_mm label_height_mm dpi auto_rotate auto_crop invert
     manual_crop_coords flip_vertical =
     (case scaled_stage D img label_width_mm label_height_mm dpi auto_rotate auto_crop
             manual_crop_coords flip_vertical of
        None \<Rightarrow> None
      | Some (scaled, new_width, new_height) \<Rightarrow>
          (case compose_stage D scaled (target_dots label_width_mm dpi)
                  (target_dots label_height_mm dpi) new_width new_height manual_crop_coords of
             None \<Rightarrow> None
           | Some final_image \<Rightarrow> Some (finish_stage final_image invert)))"

definition print_pdf ::
  "deps \<Rightarrow> bluetooth_printer \<Rightarrow> pdf_source \<Rightarrow> int \<Rightarrow> int \<Rightarrow> int \<Rightarrow> int \<Rightarrow> bool \<Rightarrow> bool \<Rightarrow> bool \<Rightarrow>
   (int \<times> int \<times> int \<times> int) option \<Rightarrow> bool \<Rightarrow> bool \<times> bluetooth_printer" where
  "print_pdf D p pdf label_width_mm label_height_mm gap_mm dpi auto_rotate auto_crop invert
     manual_crop_coords flip_vertical =
     (if \<not> PDF_SUPPORT D then (False, p)
      else if \<not> is_connected p then (False, p)
      else
        case pdf of
          Missing \<Rightarrow> (False, p)
        | Unreadable \<Rightarrow> (False, p)
        | Empty \<Rightarrow> (False, p)
        | Rendered img \<Rightarrow>
            (case label_image D img label_width_mm label_height_mm dpi auto_rotate auto_crop
                    invert manual_crop_coords flip_vertical of
               None \<Rightarrow> (False, p)
             | Some final_image \<Rightarrow>
                 print_image_tspl D p final_image label_width_mm label_height_mm gap_mm 0 0))"

text \<open>
  The print job of the application (\<^verbatim>\<open>_do_print\<close> in label_printer_app.py): connect
  a new printer object, give up if that fails, else run the print call inside
  \<^verbatim>\<open>try\<close> with \<^verbatim>\<open>finally: printer.disconnect()\<close>. The print call is any state
  transformer \<open>job\<close>: whether it returns or raises, the \<^verbatim>\<open>finally\<close> clause runs on
  the state it leaves.
\<close>

definition do_print ::
  "bluetooth_printer \<Rightarrow> (bluetooth_printer \<Rightarrow> bluetooth_printer) \<Rightarrow> bluetooth_printer" where
  "do_print printer job =
     (case connect printer of
        (False, p) \<Rightarrow> p
      | (True, p) \<Rightarrow> disconnect (job p))"

text \<open>
  A blank source raster of 612 by 792 pixels.
\<close>

definition letter_page :: image where
  "letter_page = \<lparr>mode = ModeL, width = 612, height = 792, pixel = (\<lambda>x y. 255)\<rparr>"

text \<open>
  The manual crop box read literally from the specification: the coordinates are rescaled
  by exactly the target DPI over 150, then cut to integers and clamped. It is compared
  with \<open>manual_crop_box\<close> below.
\<close>

definition spec_manual_crop_box ::
  "int \<Rightarrow> int \<times> int \<times> int \<times> int \<Rightarrow> image \<Rightarrow> int \<times> int \<times> int \<times> int" where
  "spec_manual_crop_box target_dpi manual_crop_coords img =
     (let ratio = (of_int target_dpi :: rat) / 150 in
      case manual_crop_coords of (left, upper, right, lower) \<Rightarrow>
        (max 0 (min (py_int (of_int left * ratio)) (int (width img))),
         max 0 (min (py_int (of_int upper * ratio)) (int (height img))),
         max 0 (min (py_int (of_int right * ratio)) (int (width img))),
         max 0 (min (py_int (of_int lower * ratio)) (int (height img)))))"

text \<open>
  The scaled size of the end-to-end scenario read literally from the specification: a
  612 by 792 source scaled by \<open>min (808 / 612) (1216 / 792)\<close>. It is compared with
  \<open>scaled_size\<close> below.
\<close>

definition spec_scaled_size :: "int \<times> int" where
  "spec_scaled_size =
     (py_int (612 * min (808 / 612) (1216 / 792)), py_int (792 * min (808 / 612) (1216 / 792)))"

text \<open>
  A page that has the size of the default label already, white with a black stripe over
  its 100 leftmost columns, and an environment whose resize is nearest-neighbour
  resampling: a stand-in for Pillow's Lanczos filter which, like it, returns an image of
  the size asked for and stretches the source over it.
\<close>

definition striped_page :: image where
  "striped_page =
     \<lparr>mode = ModeL, width = 807, height = 1214, pixel = (\<lambda>x y. if x < 100 then 0 else 255)\<rparr>"

definition nearest_image :: "image \<Rightarrow> nat \<Rightarrow> nat \<Rightarrow> image" where
  "nearest_image img w h =
     \<lparr>mode = mode img, width = w, height = h,
      pixel = (\<lambda>x y. pixel img (x * width img div w) (y * height img div h))\<rparr>"

definition stretch_deps :: deps where
  "stretch_deps =
     \<lparr>PDF_SUPPORT = True, convert_1 = Some,
      resize = (\<lambda>img size. case size of (w, h) \<Rightarrow>
                  if w \<le> 0 \<or> h \<le> 0 then None else Some (nearest_image img (nat w) (nat h))),
      crop_to_label = Some\<rparr>"

section \<open>Connection lemmas\<close>

lemma is_connected_fresh [simp]: "\<not> is_connected fresh_printer"
  by (simp add: fresh_printer_def is_connected_def)

lemma connected_printer_eq:
  "connected_printer = fresh_printer\<lparr>open_calls := 1, connection := Some \<lparr>is_open = True\<rparr>\<rparr>"
  by (simp add: connected_printer_def connect_def fresh_printer_def is_connected_def)

lemma is_connected_connected_printer [simp]: "is_connected connected_printer"
  by (simp add: connected_printer_eq is_connected_def)

lemma connect_success_connected: "fst (connect p) \<Longrightarrow> is_connected (snd (connect p))"
proof (cases "is_connected p")
  case True
  then show ?thesis by (simp add: connect_def)
next
  case False
  assume "fst (connect p)"
  with False show ?thesis
    by (cases "open_script p (open_calls p)") (simp_all add: connect_def Let_def is_connected_def)
qed

lemma send_raw_connection [simp]: "connection (snd (send_raw p d)) = connection p"
  by (simp add: send_raw_def Let_def split: io_outcome.splits)

lemma send_raw_is_connected [simp]: "is_connected (snd (send_raw p d)) = is_connected p"
  by (simp add: is_connected_def)

lemma send_text_connection [simp]: "connection (snd (send_text p s)) = connection p"
  by (simp add: send_text_def)

lemma send_text_is_connected [simp]: "is_connected (snd (send_text p s)) = is_connected p"
  by (simp add: is_connected_def)

lemma disconnect_not_connected [simp]: "\<not> is_connected (disconnect p)"
  by (simp add: disconnect_def is_connected_def)

text \<open>
  C7. \<^verbatim>\<open>connect\<close> on a connected printer returns True and changes nothing, so the
  transport is not opened again; hence a second \<^verbatim>\<open>connect\<close> after a successful one
  returns True as well and the number of opens stays the one of the first call, which is
  a single open when the printer started disconnected.
\<close>

theorem connect_idempotent:
  "(is_connected p \<longrightarrow> connect p = (True, p)) \<and>
   (fst (connect p) \<longrightarrow>
      connect (snd (connect p)) = (True, snd (connect p)) \<and>
      open_calls (snd (connect (snd (connect p)))) = open_calls (snd (connect p)) \<and>
      (\<not> is_connected p \<longrightarrow> open_calls (snd (connect (snd (connect p)))) = open_calls p + 1))"
proof -
  have a: "is_connected q \<Longrightarrow> connect q = (True, q)" for q
    by (simp add: connect_def)
  have b: "\<not> is_connected p \<Longrightarrow> open_calls (snd (connect p)) = open_calls p + 1"
    by (simp add: connect_def Let_def split: open_outcome.splits)
  show ?thesis
    using a [of p] a [OF connect_success_connected, of p] b by simp
qed

theorem connect_idempotent_witness:
  "\<not> is_connected fresh_printer \<and> fst (connect fresh_printer) \<and>
   is_connected connected_printer \<and>
   connect connected_printer = (True, connected_printer) \<and>
   open_calls (snd (connect connected_printer)) = 1"
proof -
  have f: "fst (connect fresh_printer)"
    by (simp add: connect_def fresh_printer_def is_connected_def)
  have o: "open_calls fresh_printer = 0"
    by (simp add: fresh_printer_def)
  have c: "is_connected (snd (connect fresh_printer))"
    using is_connected_connected_printer by (simp only: connected_printer_def)
  show ?thesis
    using connect_idempotent [of fresh_printer] f o c
    by (simp add: connected_printer_def)
qed

section \<open>The bitmap encoder\<close>

lemma bit_push_bit_one_byte: "bit (push_bit m 1 :: byte) n \<longleftrightarrow> n = m \<and> n < 8"
  by (auto simp: bit_exp_iff)

lemma fold_or_bits:
  "bit (fold (\<lambda>k (b::byte). if P k then b OR push_bit (7 - k) 1 else b) ks b0) n \<longleftrightarrow>
     bit b0 n \<or> (\<exists>k \<in> set ks. P k \<and> n = 7 - k \<and> n < 8)"
  by (induction ks arbitrary: b0) (auto simp: bit_or_iff bit_push_bit_one_byte simp del: push_bit_of_1)

lemma byte_val_bit:
  "bit (byte_val img row c) n \<longleftrightarrow>
     n < 8 \<and> c * 8 + (7 - n) < width img \<and> pixel img (c * 8 + (7 - n)) row = 0"
proof -
  have "bit (byte_val img row c) n \<longleftrightarrow>
          (\<exists>k \<in> set [0..<8]. (c * 8 + k < width img \<and> pixel img (c * 8 + k) row = 0) \<and> n = 7 - k \<and> n < 8)"
    unfolding byte_val_def Let_def by (subst fold_or_bits) simp
  also have "\<dots> \<longleftrightarrow> n < 8 \<and> c * 8 + (7 - n) < width img \<and> pixel img (c * 8 + (7 - n)) row = 0"
  proof
    assume "\<exists>k \<in> set [0..<8]. (c * 8 + k < width img \<and> pixel img (c * 8 + k) row = 0) \<and> n = 7 - k \<and> n < 8"
    then obtain k where k: "k < 8" "c * 8 + k < width img" "pixel img (c * 8 + k) row = 0" "n = 7 - k" "n < 8"
      by auto
    then have "7 - n = k" by arith
    with k show "n < 8 \<and> c * 8 + (7 - n) < width img \<and> pixel img (c * 8 + (7 - n)) row = 0"
      by simp
  next
    assume a: "n < 8 \<and> c * 8 + (7 - n) < width img \<and> pixel img (c * 8 + (7 - n)) row = 0"
    then have "7 - n \<in> set [0..<8]" "n = 7 - (7 - n)" by auto
    with a show "\<exists>k \<in> set [0..<8]. (c * 8 + k < width img \<and> pixel img (c * 8 + k) row = 0) \<and> n = 7 - k \<and> n < 8"
      by blast
  qed
  finally show ?thesis .
qed

lemma length_rows:
  "length (concat (map (\<lambda>r. map (f r) [0..<k]) rs)) = k * length rs"
  by (induction rs) simp_all

lemma nth_rows:
  "r < n \<Longrightarrow> c < k \<Longrightarrow> concat (map (\<lambda>r. map (f r) [0..<k]) [0..<n]) ! (r * k + c) = f r c"
proof (induction n)
  case 0
  then show ?case by simp
next
  case (Suc n)
  show ?case
  proof (cases "r < n")
    case True
    then have "r * k + c < k * n"
    proof -
      from True have "Suc r \<le> n" by simp
      then have "k * Suc r \<le> k * n" by (rule mult_le_mono2)
      with \<open>c < k\<close> show ?thesis by (simp add: mult.commute)
    qed
    with Suc True show ?thesis
      by (simp add: nth_append length_rows)
  next
    case False
    with Suc.prems have "r = n" by simp
    with \<open>c < k\<close> show ?thesis
      by (simp add: nth_append length_rows mult.commute)
  qed
qed

lemma bitmap_data_length: "length (bitmap_data img) = width_bytes img * height img"
  by (simp add: bitmap_data_def length_rows)

lemma bitmap_data_nth:
  "row < height img \<Longrightarrow> c < width_bytes img \<Longrightarrow>
   bitmap_data img ! (row * width_bytes img + c) = byte_val img row c"
  unfolding bitmap_data_def by (rule nth_rows)

lemma bitmap_data_set:
  "set (bitmap_data img) = {byte_val img row c | row c. row < height img \<and> c < width_bytes img}"
  by (fastforce simp: bitmap_data_def)

lemma width_bytes_ceiling: "int (width_bytes img) = \<lceil>real (width img) / 8\<rceil>"
proof -
  have "\<lceil>real (width img) / 8\<rceil> = - (- int (width img) div 8)"
    using ceiling_divide_eq_div [of "int (width img)" 8, where ?'a = real] by simp
  also have "\<dots> = int ((width img + 7) div 8)"
    by (simp add: zdiv_int)
  finally show ?thesis by (simp add: width_bytes_def)
qed


lemma byte_val_background:
  assumes "\<forall>x < width img. \<forall>y < height img. pixel img x y \<noteq> 0" and "row < height img"
  shows "byte_val img row c = 0"
  using assms by (intro bit_eqI) (auto simp: byte_val_bit)

lemma last_byte_col:
  fixes c w :: nat
  assumes "c < (w + 7) div 8" and "\<not> c * 8 + 8 \<le> w"
  shows "c = w div 8 \<and> w mod 8 \<noteq> 0"
proof -
  from assms(1) have "Suc c \<le> (w + 7) div 8" by simp
  then have "Suc c * 8 \<le> w + 7" by (simp only: less_eq_div_iff_mult_less_eq) 
  then have lo: "8 * c < w" by simp
  from assms(2) have hi: "w < 8 * Suc c" by simp
  from lo hi have d: "w div 8 = c" by (intro div_nat_eqI) simp_all
  have "w = 8 * (w div 8) + w mod 8" by simp
  with d lo have "w mod 8 \<noteq> 0" by linarith
  with d show ?thesis by simp
qed

lemma bit_push_ones_byte: "bit (push_bit m (- 1 :: byte)) n \<longleftrightarrow> m \<le> n \<and> n < 8"
  by (simp only: bit_push_bit_iff bit_minus_1_iff) auto

lemma byte_255: "(0xFF :: byte) = - 1"
  by simp

lemma byte_val_ink:
  assumes "\<forall>x < width img. \<forall>y < height img. pixel img x y = 0" and "row < height img"
    and "c < width_bytes img"
  shows "byte_val img row c =
           (if c * 8 + 8 \<le> width img then 0xFF else push_bit (8 - width img mod 8) 0xFF)"
proof (cases "c * 8 + 8 \<le> width img")
  case True
  have "bit (byte_val img row c) n = bit (- 1 :: byte) n" for n
    using assms True by (auto simp: byte_val_bit)
  then have "byte_val img row c = - 1" by (intro bit_eqI) simp
  with True show ?thesis by (simp only: byte_255 if_True)
next
  case False
  with assms(3) have c: "c = width img div 8" and m: "width img mod 8 \<noteq> 0"
    unfolding width_bytes_def using last_byte_col [of c "width img"] by simp_all
  define r where "r = width img mod 8"
  have w: "width img = c * 8 + r"
    unfolding r_def c by simp
  have r: "0 < r" "r < 8"
    using m by (simp_all add: r_def)
  have "bit (byte_val img row c) n = bit (push_bit (8 - r) (- 1 :: byte)) n" for n
  proof (cases "n < 8")
    case True
    have "c * 8 + (7 - n) < width img \<longleftrightarrow> 8 - r \<le> n"
      using True r unfolding w by linarith
    moreover have "c * 8 + (7 - n) < width img \<Longrightarrow> pixel img (c * 8 + (7 - n)) row = 0"
      using assms(1,2) by blast
    ultimately show ?thesis
      using True unfolding byte_val_bit bit_push_ones_byte by blast
  next
    case False
    then show ?thesis
      by (simp add: byte_val_bit bit_push_ones_byte del: push_bit_minus_one_eq_not_mask)
  qed
  then have "byte_val img row c = push_bit (8 - r) (- 1)" by (intro bit_eqI) blast
  then have "byte_val img row c = push_bit (8 - width img mod 8) (- 1)" by (simp only: r_def)
  with False show ?thesis by (simp only: byte_255 if_False)
qed

text \<open>
  C2. The encoder emits \<open>ceil(w / 8)\<close> bytes per row and that many times \<open>h\<close> bytes in all,
  row after row. Bit \<open>7 - k\<close> of the byte in column \<open>c\<close> of a row is set exactly when
  pixel \<open>8c + k\<close> lies inside the row and is black (value 0): eight pixels per byte, most
  significant bit first, 1 for ink, and the unused bits of a row's last byte are 0. An
  image with no black pixel encodes to zero bytes only; an all-black image encodes to 0xFF
  bytes, except that the last byte of each row keeps only its leading \<open>w mod 8\<close> bits when
  \<open>w\<close> is not a multiple of 8.
\<close>

theorem bitmap_encoding:
  "int (width_bytes img) = \<lceil>real (width img) / 8\<rceil> \<and>
   length (bitmap_data img) = width_bytes img * height img \<and>
   (\<forall>row < height img. \<forall>c < width_bytes img. \<forall>k < 8.
      bit (bitmap_data img ! (row * width_bytes img + c)) (7 - k) \<longleftrightarrow>
        (c * 8 + k < width img \<and> pixel img (c * 8 + k) row = 0)) \<and>
   ((\<forall>x < width img. \<forall>y < height img. pixel img x y \<noteq> 0) \<longrightarrow>
      (\<forall>b \<in> set (bitmap_data img). b = 0)) \<and>
   ((\<forall>x < width img. \<forall>y < height img. pixel img x y = 0) \<longrightarrow>
      (\<forall>row < height img. \<forall>c < width_bytes img.
         bitmap_data img ! (row * width_bytes img + c) =
           (if c * 8 + 8 \<le> width img then 0xFF else push_bit (8 - width img mod 8) 0xFF)))"
proof (intro conjI allI impI ballI)
  show "int (width_bytes img) = \<lceil>real (width img) / 8\<rceil>"
    by (rule width_bytes_ceiling)
  show "length (bitmap_data img) = width_bytes img * height img"
    by (rule bitmap_data_length)
next
  fix row c k
  assume "row < height img" "c < width_bytes img" "k < (8::nat)"
  then show "bit (bitmap_data img ! (row * width_bytes img + c)) (7 - k) \<longleftrightarrow>
        (c * 8 + k < width img \<and> pixel img (c * 8 + k) row = 0)"
    by (auto simp: bitmap_data_nth byte_val_bit)
next
  fix b
  assume "\<forall>x < width img. \<forall>y < height img. pixel img x y \<noteq> 0" "b \<in> set (bitmap_data img)"
  then show "b = 0"
    by (auto simp: bitmap_data_set byte_val_background)
next
  fix row c
  assume "\<forall>x < width img. \<forall>y < height img. pixel img x y = 0"
    "row < height img" "c < width_bytes img"
  then show "bitmap_data img ! (row * width_bytes img + c) =
           (if c * 8 + 8 \<le> width img then 0xFF else push_bit (8 - width img mod 8) 0xFF)"
    by (simp only: bitmap_data_nth byte_val_ink)
qed

theorem bitmap_encoding_witness:
  "width_bytes ink_9x2 = 2 \<and> length (bitmap_data ink_9x2) = 4 \<and>
   bitmap_data ink_9x2 ! 2 = 0xFF \<and> bitmap_data ink_9x2 ! 3 = 0x80 \<and>
   bitmap_data blank_9x2 ! 3 = 0"
proof -
  have i: "\<forall>x < width ink_9x2. \<forall>y < height ink_9x2. pixel ink_9x2 x y = 0"
    by (simp add: ink_9x2_def)
  have b: "\<forall>x < width blank_9x2. \<forall>y < height blank_9x2. pixel blank_9x2 x y \<noteq> 0"
    by (simp add: blank_9x2_def)
  have w: "width_bytes ink_9x2 = 2" "height ink_9x2 = 2" "width ink_9x2 = 9"
    by (simp_all add: ink_9x2_def width_bytes_def)
  have wb: "width_bytes blank_9x2 = 2" "height blank_9x2 = 2"
    by (simp_all add: blank_9x2_def width_bytes_def)
  note t = bitmap_encoding [of ink_9x2]
  have l: "length (bitmap_data ink_9x2) = 4"
    using t [THEN conjunct2, THEN conjunct1] by (simp add: w)
  have n: "row < 2 \<Longrightarrow> c < 2 \<Longrightarrow> bitmap_data ink_9x2 ! (row * 2 + c) =
           (if c * 8 + 8 \<le> (9::nat) then 0xFF else push_bit (8 - 9 mod 8) 0xFF)" for row c
    using t [THEN conjunct2, THEN conjunct2, THEN conjunct2, THEN conjunct2, THEN mp, OF i,
             rule_format, of row c]
    by (simp only: w)
  have n2: "bitmap_data ink_9x2 ! 2 = 0xFF" using n [of 1 0] by simp
  have n3: "bitmap_data ink_9x2 ! 3 = 0x80" using n [of 1 1] by simp
  note u = bitmap_encoding [of blank_9x2]
  have lb: "length (bitmap_data blank_9x2) = 4"
    using u [THEN conjunct2, THEN conjunct1] by (simp add: wb)
  have z: "\<forall>b \<in> set (bitmap_data blank_9x2). b = 0"
    using u [THEN conjunct2, THEN conjunct2, THEN conjunct2, THEN conjunct1] b
    by (rule mp)
  have "bitmap_data blank_9x2 ! 3 \<in> set (bitmap_data blank_9x2)"
    by (rule nth_mem) (simp add: lb)
  with z have z3: "bitmap_data blank_9x2 ! 3 = 0" by blast
  from w(1) l n2 n3 z3 show ?thesis by (intro conjI)
qed

section \<open>Sending\<close>

lemma send_raw_disconnected: "\<not> is_connected p \<Longrightarrow> send_raw p d = (False, p)"
  by (simp add: send_raw_def)

lemma send_raw_attempts:
  "is_connected p \<Longrightarrow>
   attempts (snd (send_raw p d)) = attempts p @ [(d, write_script p (length (attempts p)))]"
  by (simp add: send_raw_def Let_def split: io_outcome.splits)

lemma send_raw_success_iff:
  "fst (send_raw p d) \<longleftrightarrow>
     is_connected p \<and> write_script p (length (attempts p)) = Done \<and>
     flush_script p (flush_calls p) = Done"
  by (simp add: send_raw_def Let_def split: io_outcome.splits)

lemma send_raw_success_effect:
  assumes "fst (send_raw p d)"
  shows "written (snd (send_raw p d)) = written p @ [d]"
    and "flush_calls (snd (send_raw p d)) = flush_calls p + 1"
  using assms
  by (simp_all add: send_raw_def Let_def written_def split: io_outcome.splits if_splits)

text \<open>
  C6, as the code has it. \<^verbatim>\<open>send_raw\<close> on a printer that is not connected returns
  False and touches nothing: no write and no flush. On a connected printer it hands all
  the bytes to the transport in one write, then flushes, and returns True exactly when
  both went through; the bytes are then on the wire and one flush was made. The result is
  the flag, not a byte count.
\<close>

theorem send_raw_contract:
  "(\<not> is_connected p \<longrightarrow> send_raw p d = (False, p)) \<and>
   (is_connected p \<longrightarrow>
      attempts (snd (send_raw p d)) = attempts p @ [(d, write_script p (length (attempts p)))] \<and>
      (fst (send_raw p d) \<longleftrightarrow>
         write_script p (length (attempts p)) = Done \<and> flush_script p (flush_calls p) = Done)) \<and>
   (fst (send_raw p d) \<longrightarrow>
      written (snd (send_raw p d)) = written p @ [d] \<and>
      flush_calls (snd (send_raw p d)) = flush_calls p + 1)"
  using send_raw_disconnected [of p d] send_raw_attempts [of p d] send_raw_success_iff [of p d]
    send_raw_success_effect [of p d]
  by blast

lemma connected_printer_fields:
  "attempts connected_printer = []" "flush_calls connected_printer = 0"
  "write_script connected_printer = (\<lambda>_. Done)" "flush_script connected_printer = (\<lambda>_. Done)"
  "connection connected_printer = Some \<lparr>is_open = True\<rparr>"
  by (simp_all add: connected_printer_eq fresh_printer_def)

theorem send_raw_contract_witness:
  "is_connected connected_printer \<and> \<not> is_connected fresh_printer \<and>
   send_raw fresh_printer [1, 2, 3] = (False, fresh_printer) \<and>
   fst (send_raw connected_printer [1, 2, 3]) \<and>
   attempts (snd (send_raw connected_printer [1, 2, 3])) = [([1, 2, 3], Done)] \<and>
   written (snd (send_raw connected_printer [1, 2, 3])) = [[1, 2, 3]] \<and>
   flush_calls (snd (send_raw connected_printer [1, 2, 3])) = 1"
  using send_raw_contract [of connected_printer "[1, 2, 3]"]
    send_raw_contract [of fresh_printer "[1, 2, 3]"]
  by (simp add: connected_printer_fields written_def)

text \<open>
  C6 as stated fails: a successful send of three bytes returns True, which as a number
  is 1, not the 3 bytes that were written.
\<close>

theorem send_raw_returns_flag_counterexample:
  "fst (send_raw connected_printer [1, 2, 3]) = True \<and>
   written (snd (send_raw connected_printer [1, 2, 3])) = [[1, 2, 3]] \<and>
   (of_bool (fst (send_raw connected_printer [1, 2, 3])) :: nat) \<noteq> length [1, 2, 3 :: byte]"
  by (simp add: send_raw_def Let_def connected_printer_fields written_def is_connected_def)

lemma failing_printer_fields:
  "attempts failing_printer = []" "flush_calls failing_printer = 0"
  "write_script failing_printer = (\<lambda>_. SerialException)"
  "connection failing_printer = Some \<lparr>is_open = True\<rparr>"
  by (simp_all add: failing_printer_def connected_printer_fields)

text \<open>
  C1. The three writes are made in the order header, bitmap, PRINT. But on a transport
  that fails every write, \<^verbatim>\<open>print_image_tspl\<close> still makes all three attempts and
  returns True: a failed write neither stops the sequence nor fails the operation.
\<close>

theorem print_image_tspl_ignores_failed_writes:
  "print_image_tspl sample_deps failing_printer ink_9x2 100 150 2 0 0 =
     (True, failing_printer\<lparr>attempts :=
        [(utf8 (bitmap_header ink_9x2 100 150 2 0 0), SerialException),
         (bitmap_data ink_9x2, SerialException),
         (utf8 print_cmd, SerialException)]\<rparr>)"
  by (simp add: print_image_tspl_def sample_deps_def ink_9x2_def send_text_def send_raw_def
      Let_def failing_printer_fields is_connected_def)

section \<open>The text label command\<close>

lemma add_text_lines_eq:
  "add_text_lines x font lines (cmd, cy) =
     (let printed = filter (\<lambda>line. strip line \<noteq> []) lines in
      (cmd @ concat (map (\<lambda>i. text_command x (cy + 40 * int i) font (escape_quotes (printed ! i)))
                         [0..<length printed]),
       cy + 40 * int (length printed)))"
proof (induction lines arbitrary: cmd cy)
  case Nil
  then show ?case by simp
next
  case (Cons line lines)
  show ?case
  proof (cases "strip line \<noteq> []")
    case True
    then show ?thesis
      by (simp add: Cons.IH Let_def map_upt_Suc algebra_simps del: upt_Suc)
  next
    case False
    then show ?thesis
      by (simp add: Cons.IH Let_def)
  qed
qed

text \<open>
  C4, as the code has it. The command built for a text label is the SIZE line, the GAP
  line, \<^verbatim>\<open>DIRECTION 1\<close> and \<^verbatim>\<open>CLS\<close>, each ended by a line feed; then one TEXT line
  for each line of the input that is not blank, that is, that still has a character after
  \<^verbatim>\<open>strip()\<close>, the \<open>i\<close>-th of them at \<open>y + 40 i\<close>, carrying the line as it is with
  every double quote replaced by backslash and double quote; then \<^verbatim>\<open>PRINT 1\<close>; then
  one more line feed.
\<close>

theorem label_command_layout:
  "label_command text label_width_mm label_height_mm gap_mm font x y =
     ''SIZE '' @ str_int label_width_mm @ '' mm, '' @ str_int label_height_mm @ '' mm'' @ [LF] @
     ''GAP '' @ str_int gap_mm @ '' mm, 0 mm'' @ [LF] @
     ''DIRECTION 1'' @ [LF] @
     ''CLS'' @ [LF] @
     concat (map (\<lambda>i. ''TEXT '' @ str_int x @ '','' @ str_int (y + 40 * int i) @ '','' @
                        [DQUOTE] @ font @ [DQUOTE] @ '',0,1,1,'' @ [DQUOTE] @
                        concat (map (\<lambda>c. if c = DQUOTE then [BACKSLASH, DQUOTE] else [c])
                                    (filter (\<lambda>line. strip line \<noteq> []) (split_on LF text) ! i)) @
                        [DQUOTE] @ [LF])
                 [0..<length (filter (\<lambda>line. strip line \<noteq> []) (split_on LF text))]) @
     ''PRINT 1'' @ [LF] @
     [LF]"
  by (simp add: label_command_def add_text_lines_eq Let_def tspl_setup_def text_command_def
      escape_quotes_def)

text \<open>
  C4 as stated fails on a line that is not empty but blank: for the input of one space the
  code prints no TEXT line, where one TEXT line per non-empty line asks for one.
\<close>

theorem label_command_blank_line_counterexample:
  "label_command '' '' 40 30 2 ''2'' 10 10 \<noteq> spec_label_command '' '' 40 30 2 ''2'' 10 10"
  by (simp add: label_command_def spec_label_command_def Let_def strip_def isspace_def
      text_command_def tspl_setup_def)

text \<open>
  The order of the writes of \<^verbatim>\<open>print_image_tspl\<close>, for every outcome of the
  transport: header, bitmap, PRINT, and the result is True.
\<close>

lemma print_image_tspl_three_writes:
  assumes "PDF_SUPPORT D" and "is_connected p" and "mode img = Mode1"
  shows "fst (print_image_tspl D p img w h g x y) = True"
    and "map fst (attempts (snd (print_image_tspl D p img w h g x y))) =
           map fst (attempts p) @
           [utf8 (bitmap_header img w h g x y), bitmap_data img, utf8 print_cmd]"
  using assms
  by (simp_all add: print_image_tspl_def Let_def send_text_def send_raw_attempts)

section \<open>Float rounding\<close>

lemma bitlen_pos: "0 < n \<Longrightarrow> 1 \<le> bitlen n"
  using bitlen_eq_zero_iff [of n] bitlen_nonneg [of n] by linarith

lemma ilog2_bounds:
  assumes "0 < x"
  shows "2 powi (ilog2 x) \<le> x" and "x < 2 powi (ilog2 x + 1)"
proof -
  have "2 powi (ilog2 x) \<le> x \<and> x < 2 powi (ilog2 x + 1)"
  proof (cases "1 \<le> x")
    case True
    define n where "n = \<lfloor>x\<rfloor>"
    define b where "b = bitlen n"
    from True have n: "0 < n" by (simp add: n_def)
    then have b: "1 \<le> b" unfolding b_def by (rule bitlen_pos)
    from bitlen_bounds [OF n] have lo: "2 ^ nat (b - 1) \<le> n" and hi: "n < 2 ^ nat b"
      by (simp_all add: b_def)
    have i: "ilog2 x = b - 1" using True by (simp add: ilog2_def b_def n_def)
    have "(2::rat) powi (b - 1) = 2 ^ nat (b - 1)"
      using b by (intro power_int_nonneg_exp) simp
    also have "\<dots> = of_int (2 ^ nat (b - 1))" by simp
    also have "\<dots> \<le> of_int n" using lo by (simp only: of_int_le_iff)
    also have "\<dots> \<le> x" by (simp add: n_def)
    finally have 1: "2 powi (b - 1) \<le> x" .
    from hi have "n + 1 \<le> 2 ^ nat b" by simp
    then have "(of_int (n + 1) :: rat) \<le> of_int (2 ^ nat b)" by (simp only: of_int_le_iff)
    moreover have "x < of_int (n + 1)" using floor_correct [of x] by (simp add: n_def)
    ultimately have "x < of_int (2 ^ nat b)" by linarith
    also have "\<dots> = 2 ^ nat b" by simp
    also have "\<dots> = (2::rat) powi b"
      using b by (intro power_int_nonneg_exp [symmetric]) simp
    finally have 2: "x < 2 powi b" .
    from 1 2 i show ?thesis by simp
  next
    case False
    define y where "y = 1 / x"
    define n where "n = \<lceil>y\<rceil> - 1"
    define b where "b = bitlen n"
    from False assms have y1: "1 < y" by (simp add: y_def)
    then have "1 < \<lceil>y\<rceil>" by (simp add: less_ceiling_iff)
    then have n: "0 < n" by (simp add: n_def)
    then have b: "1 \<le> b" unfolding b_def by (rule bitlen_pos)
    from bitlen_bounds [OF n] have lo: "2 ^ nat (b - 1) \<le> n" and hi: "n < 2 ^ nat b"
      by (simp_all add: b_def)
    have i: "ilog2 x = - b" using False by (simp add: ilog2_def b_def n_def y_def)
    have x: "x = 1 / y" by (simp add: y_def)
    have yn: "of_int n < y" "y \<le> of_int (n + 1)"
      using ceiling_correct [of y] by (simp_all add: n_def)
    from hi have "n + 1 \<le> 2 ^ nat b" by simp
    then have "(of_int (n + 1) :: rat) \<le> of_int (2 ^ nat b)" by (simp only: of_int_le_iff)
    with yn(2) have "y \<le> of_int (2 ^ nat b)" by linarith
    then have yb: "y \<le> 2 ^ nat b" by simp
    have "(2::rat) powi (- b) = 1 / 2 powi b" by (rule power_int_minus_divide)
    also have "\<dots> = 1 / 2 ^ nat b"
      using b by (simp add: power_int_nonneg_exp)
    also have "\<dots> \<le> 1 / y" using yb y1 by (intro divide_left_mono) simp_all
    finally have 1: "2 powi (- b) \<le> x" by (simp add: x)
    have "(of_int (2 ^ nat (b - 1)) :: rat) \<le> of_int n" using lo by (simp only: of_int_le_iff)
    then have "(2 ^ nat (b - 1) :: rat) \<le> of_int n" by simp
    with yn(1) have ylo: "2 ^ nat (b - 1) < y" by linarith
    have "x = 1 / y" by (rule x)
    also have "\<dots> < 1 / 2 ^ nat (b - 1)" using ylo y1 by (intro divide_strict_left_mono) (simp_all add: zero_less_mult_iff)
    also have "\<dots> = 1 / 2 powi (b - 1)" using b by (simp add: power_int_nonneg_exp)
    also have "\<dots> = 2 powi (- (b - 1))" by (rule power_int_minus_divide [symmetric])
    finally have 2: "x < 2 powi (- b + 1)" by simp
    from 1 2 i show ?thesis by simp
  qed
  then show "2 powi (ilog2 x) \<le> x" and "x < 2 powi (ilog2 x + 1)" by simp_all
qed

lemma ilog2_less:
  assumes "0 < x" and "x < 2 powi t"
  shows "ilog2 x < t"
proof (rule ccontr)
  assume "\<not> ilog2 x < t"
  then have "t \<le> ilog2 x" by simp
  then have "(2::rat) powi t \<le> 2 powi (ilog2 x)" by (intro power_int_increasing) simp_all
  also have "\<dots> \<le> x" using assms(1) by (rule ilog2_bounds)
  finally show False using assms(2) by simp
qed

lemma round_half_even_bounds: "\<lfloor>x\<rfloor> \<le> round_half_even x" "round_half_even x \<le> \<lceil>x\<rceil>"
proof -
  show "\<lfloor>x\<rfloor> \<le> round_half_even x"
    by (simp add: round_half_even_def Let_def)
  have "\<lfloor>x\<rfloor> + 1 \<le> \<lceil>x\<rceil>" if "0 < x - of_int \<lfloor>x\<rfloor>"
  proof -
    from that have "of_int \<lfloor>x\<rfloor> < x" by simp
    then have "\<lfloor>x\<rfloor> < \<lceil>x\<rceil>" by (simp add: less_ceiling_iff)
    then show ?thesis by simp
  qed
  moreover have "\<lfloor>x\<rfloor> \<le> \<lceil>x\<rceil>" by (rule floor_le_ceiling)
  ultimately show "round_half_even x \<le> \<lceil>x\<rceil>"
    by (auto simp: round_half_even_def Let_def)
qed

lemma round_half_even_ge:
  assumes "of_int k \<le> x"
  shows "k \<le> round_half_even x"
proof -
  from assms have "k \<le> \<lfloor>x\<rfloor>" by (simp only: le_floor_iff)
  with round_half_even_bounds(1) [of x] show ?thesis by linarith
qed

lemma round_half_even_le:
  assumes "x \<le> of_int k"
  shows "round_half_even x \<le> k"
proof -
  from assms have "\<lceil>x\<rceil> \<le> k" by (simp only: ceiling_le_iff)
  with round_half_even_bounds(2) [of x] show ?thesis by linarith
qed

lemma fl_pos_eq:
  "0 < x \<Longrightarrow> fl x = of_int (round_half_even (x / (2 powi (ilog2 x - 52)))) * (2 powi (ilog2 x - 52))"
  by (simp add: fl_def Let_def)

lemma grid_shift:
  assumes "e \<le> j"
  shows "(of_int k :: rat) * (2 powi j) / (2 powi e) = of_int (k * 2 ^ nat (j - e))"
proof -
  have "(2::rat) powi j = 2 powi (j - e) * 2 powi e"
    by (simp flip: power_int_add)
  moreover have "(2::rat) powi (j - e) = 2 ^ nat (j - e)"
    using assms by (intro power_int_nonneg_exp) simp
  ultimately show ?thesis by simp
qed

lemma grid_unshift:
  assumes "e \<le> j"
  shows "(of_int (k * 2 ^ nat (j - e)) :: rat) * (2 powi e) = of_int k * (2 powi j)"
proof -
  have "(2::rat) powi j = 2 powi (j - e) * 2 powi e"
    by (simp flip: power_int_add)
  moreover have "(2::rat) powi (j - e) = 2 ^ nat (j - e)"
    using assms by (intro power_int_nonneg_exp) simp
  ultimately show ?thesis by simp
qed

lemma fl_le_grid:
  assumes "0 < x" and "x \<le> of_int k * (2 powi j)" and "ilog2 x - 52 \<le> j"
  shows "fl x \<le> of_int k * (2 powi j)"
proof -
  define e where "e = ilog2 x - 52"
  have p: "(0::rat) < 2 powi e" by simp
  from assms(2) have "x / (2 powi e) \<le> of_int k * (2 powi j) / (2 powi e)"
    using p by (intro divide_right_mono) simp_all
  also have "\<dots> = of_int (k * 2 ^ nat (j - e))"
    using assms(3) unfolding e_def by (rule grid_shift)
  finally have "round_half_even (x / (2 powi e)) \<le> k * 2 ^ nat (j - e)"
    by (rule round_half_even_le)
  then have "(of_int (round_half_even (x / (2 powi e))) :: rat) \<le> of_int (k * 2 ^ nat (j - e))"
    by (simp only: of_int_le_iff)
  then have "of_int (round_half_even (x / (2 powi e))) * (2 powi e) \<le>
             (of_int (k * 2 ^ nat (j - e)) :: rat) * (2 powi e)"
    using p by (intro mult_right_mono) simp_all
  also have "(of_int (k * 2 ^ nat (j - e)) :: rat) * (2 powi e) = of_int k * (2 powi j)"
    using assms(3) unfolding e_def by (rule grid_unshift)
  finally show ?thesis
    using assms(1) by (simp add: fl_pos_eq e_def)
qed

lemma fl_ge_grid:
  assumes "0 < x" and "of_int k * (2 powi j) \<le> x" and "ilog2 x - 52 \<le> j"
  shows "of_int k * (2 powi j) \<le> fl x"
proof -
  define e where "e = ilog2 x - 52"
  have p: "(0::rat) < 2 powi e" by simp
  have "(of_int (k * 2 ^ nat (j - e)) :: rat) = of_int k * (2 powi j) / (2 powi e)"
    using assms(3) unfolding e_def by (rule grid_shift [symmetric])
  also from assms(2) have "\<dots> \<le> x / (2 powi e)"
    using p by (intro divide_right_mono) simp_all
  finally have "k * 2 ^ nat (j - e) \<le> round_half_even (x / (2 powi e))"
    by (rule round_half_even_ge)
  then have r: "(of_int (k * 2 ^ nat (j - e)) :: rat) \<le> of_int (round_half_even (x / (2 powi e)))"
    by (simp only: of_int_le_iff)
  have "of_int k * (2 powi j) = (of_int (k * 2 ^ nat (j - e)) :: rat) * (2 powi e)"
    using assms(3) unfolding e_def by (rule grid_unshift [symmetric])
  also have "\<dots> \<le> of_int (round_half_even (x / (2 powi e))) * (2 powi e)"
    using r p by (intro mult_right_mono) simp_all
  also have "\<dots> = fl x"
    using assms(1) by (simp only: fl_pos_eq e_def)
  finally show ?thesis .
qed

lemma fl_minus: "fl (- x) = - fl x"
  by (simp add: fl_def Let_def sgn_minus)

lemma fl_of_int:
  assumes "\<bar>k\<bar> < 2 ^ 53"
  shows "fl (of_int k) = of_int k"
proof -
  have pos: "fl (of_int n) = of_int n" if "0 < n" "n < 2 ^ 53" for n :: int
  proof -
    have x: "(0::rat) < of_int n" using that by simp
    have "(of_int n :: rat) < of_int (2 ^ 53)" using that(2) by (simp only: of_int_less_iff)
    then have "(of_int n :: rat) < 2 powi 53" by simp
    with x have "ilog2 (of_int n) < 53" by (rule ilog2_less)
    then have e: "ilog2 (of_int n) - 52 \<le> 0" by simp
    have g: "(of_int n :: rat) = of_int n * (2 powi 0)" by simp
    have "fl (of_int n) \<le> of_int n * (2 powi 0)"
      using x _ e by (rule fl_le_grid) simp
    moreover have "of_int n * (2 powi 0) \<le> fl (of_int n)"
      using x _ e by (rule fl_ge_grid) simp
    ultimately show ?thesis by simp
  qed
  consider "k = 0" | "0 < k" | "k < 0" by linarith
  then show ?thesis
  proof cases
    case 1
    then show ?thesis by (simp add: fl_def)
  next
    case 2
    with assms show ?thesis by (intro pos) simp_all
  next
    case 3
    with assms have "fl (of_int (- k)) = of_int (- k)" by (intro pos) simp_all
    then show ?thesis by (simp add: fl_minus)
  qed
qed

section \<open>Target dots\<close>

lemma fl_25_4: "fl (254 / 10) = 3574732204225331 / 140737488355328"
  by code_simp

lemma py_int_between:
  assumes "0 \<le> m" and "of_int m \<le> x" and "x < of_int m + 1"
  shows "py_int x = m"
proof -
  from assms(1,2) have "0 \<le> x" by (meson of_int_0_le_iff order_trans)
  moreover have "\<lfloor>x\<rfloor> = m" using assms(2,3) by (intro floor_unique) simp_all
  ultimately show ?thesis by (simp add: py_int_def)
qed

lemma target_dots_floor:
  assumes "0 < mm" and "0 < dpi" and "mm * dpi < 2 ^ 40"
  shows "target_dots mm dpi = \<lfloor>(of_int (mm * dpi) :: rat) / (254 / 10)\<rfloor>"
proof -
  define n where "n = mm * dpi"
  define m where "m = \<lfloor>(of_int n :: rat) / (254 / 10)\<rfloor>"
  define q :: rat where "q = of_int n * (140737488355328 / 3574732204225331)"
  from assms(1,2) have n0: "0 < n" by (simp add: n_def)
  from assms(3) have n40: "n < 2 ^ 40" by (simp add: n_def)
  have rn0: "(0::rat) < of_int n" using n0 by simp
  have "(of_int n :: rat) < of_int (2 ^ 40)" using n40 by (simp only: of_int_less_iff)
  then have rn40: "(of_int n :: rat) < 1099511627776" by simp
  have fn: "fl (of_int n) = of_int n"
    using n0 n40 by (intro fl_of_int) simp
  have "fl (of_int n) / fl (254 / 10) = of_int n / (3574732204225331 / 140737488355328)"
    by (simp only: fn fl_25_4)
  also have "\<dots> = q" by (simp add: q_def)
  finally have qdef: "fl (of_int n) / fl (254 / 10) = q" .
  have q0: "0 < q" using rn0 by (simp add: q_def)
  have mlo: "of_int m \<le> (of_int n :: rat) / (254 / 10)"
    unfolding m_def by (rule of_int_floor_le)
  have "(of_int n :: rat) / (254 / 10) < of_int m + 1"
    unfolding m_def by linarith
  then have "(of_int (5 * n) :: rat) < of_int (127 * (m + 1))" by simp
  then have "5 * n < 127 * (m + 1)" by (simp only: of_int_less_iff)
  then have "5 * n \<le> 127 * m + 126" by simp
  then have "(of_int (5 * n) :: rat) \<le> of_int (127 * m + 126)" by (simp only: of_int_le_iff)
  then have mhi: "5 * (of_int n :: rat) \<le> 127 * of_int m + 126" by simp
  have m0: "0 \<le> m" unfolding m_def using rn0 by simp
  have rm0: "(0::rat) \<le> of_int m" using m0 by simp
  have mn: "(of_int m :: rat) \<le> of_int n" using mlo rn0 by simp
  have lo: "of_int m * (2 powi 0) \<le> q"
    using mlo rn0 by (simp add: q_def)
  have hi: "q \<le> of_int (256 * m + 255) * (2 powi (- 8))"
    using mhi rm0 mn rn40 by (simp add: q_def power_int_minus_divide)
  have "q < 2 powi 45" using rn40 rn0 by (simp add: q_def)
  with q0 have "ilog2 q < 45" by (rule ilog2_less)
  then have e: "ilog2 q - 52 \<le> - 8" "ilog2 q - 52 \<le> 0" by simp_all
  have "of_int m * (2 powi 0) \<le> fl q" using q0 lo e(2) by (rule fl_ge_grid)
  then have 1: "of_int m \<le> fl q" by simp
  have "fl q \<le> of_int (256 * m + 255) * (2 powi (- 8))" using q0 hi e(1) by (rule fl_le_grid)
  then have 2: "fl q < of_int m + 1" by (simp add: power_int_minus_divide)
  have "py_int (fl q) = m" using m0 1 2 by (rule py_int_between)
  then have "py_int (fl (fl (of_int n) / fl (254 / 10))) = m" by (simp only: qdef)
  then show ?thesis
    unfolding target_dots_def m_def n_def .
qed

lemma floor_25_4: "\<lfloor>(of_int n :: rat) / (254 / 10)\<rfloor> = (5 * n) div 127"
proof -
  have "(of_int n :: rat) / (254 / 10) = of_int (5 * n) / of_int 127" by simp
  then show ?thesis by (simp only: floor_divide_of_int_eq)
qed

lemma target_dots_div:
  "0 < mm \<Longrightarrow> 0 < dpi \<Longrightarrow> mm * dpi < 2 ^ 40 \<Longrightarrow> target_dots mm dpi = (5 * (mm * dpi)) div 127"
  by (simp only: target_dots_floor floor_25_4)

lemma target_dots_default: "target_dots 101 203 = 807" "target_dots 152 203 = 1214"
  by (simp_all add: target_dots_div)

text \<open>
  C3, as the code has it. For positive sizes (with a product below \<open>2 ^ 40\<close>, where the
  float division is proved to leave the integer part untouched) the target dots are the
  quotient \<open>mm * dpi / 25.4\<close> truncated, not rounded; for 203 dpi and 101 by 152 mm they
  are 807 and 1214.
\<close>

theorem target_dots_truncation:
  "(0 < mm \<and> 0 < dpi \<and> mm * dpi < 2 ^ 40 \<longrightarrow>
      target_dots mm dpi = \<lfloor>(of_int (mm * dpi) :: rat) / (254 / 10)\<rfloor>) \<and>
   target_dots 101 203 = 807 \<and> target_dots 152 203 = 1214"
  using target_dots_floor [of mm dpi] target_dots_default by blast

theorem target_dots_truncation_witness:
  "(0::int) < 40 \<and> (0::int) < 203 \<and> (40 * 203 :: int) < 2 ^ 40 \<and> target_dots 40 203 = 319"
  using target_dots_truncation [of 40 203] by (simp add: floor_25_4 [of "40 * 203", simplified])

text \<open>
  C3 as stated fails: for 152 mm at 203 dpi the quotient is 1214.8, which rounds to 1215,
  and the code yields 1214; and the dots for 101 by 152 mm are not (808, 1216).
\<close>

theorem target_dots_round_counterexample:
  "target_dots 152 203 \<noteq> round ((152 * 203 :: rat) / (254 / 10)) \<and>
   (target_dots 101 203, target_dots 152 203) \<noteq> (808, 1216)"
proof -
  have "round ((152 * 203 :: rat) / (254 / 10)) = \<lfloor>(of_int 308687 :: rat) / of_int 254\<rfloor>"
    by (simp add: round_def)
  also have "\<dots> = 1215" by (simp only: floor_divide_of_int_eq)
  finally show ?thesis by (simp add: target_dots_default)
qed

section \<open>Closing the connection\<close>

lemma print_label_tspl_connection [simp]:
  "connection (snd (print_label_tspl p text cut_after w h g font x y)) = connection p"
  by (simp add: print_label_tspl_def)

lemma print_image_tspl_connection [simp]:
  "connection (snd (print_image_tspl D p img w h g x y)) = connection p"
  by (simp add: print_image_tspl_def Let_def split: option.splits)

lemma print_pdf_connection [simp]:
  "connection (snd (print_pdf D p pdf w h g dpi auto_rotate auto_crop invert coords flip_vertical)) = connection p"
  by (simp add: print_pdf_def split: pdf_source.splits option.splits)

lemma connect_failure_not_connected:
  assumes "connect p = (False, q)"
  shows "\<not> is_connected q"
proof (cases "is_connected p")
  case True
  with assms show ?thesis by (simp add: connect_def)
next
  case False
  with assms show ?thesis
    by (cases "open_script p (open_calls p)")
       (auto simp: connect_def Let_def is_connected_def)
qed

lemma do_print_closed: "\<not> is_connected (do_print p job)"
proof (cases "connect p")
  case (Pair ok q)
  then show ?thesis
    by (cases ok) (simp_all add: do_print_def connect_failure_not_connected)
qed

text \<open>
  C5, as the code has it. No print entry point closes the connection: \<^verbatim>\<open>send_raw\<close>,
  \<^verbatim>\<open>print_label_tspl\<close>, \<^verbatim>\<open>print_image_tspl\<close> and \<^verbatim>\<open>print_pdf\<close> return, on
  every path, with the serial handle as they found it. Closing is the caller's part:
  \<^verbatim>\<open>disconnect\<close> always leaves the printer disconnected, and the print job of the
  application, which runs the print call inside \<^verbatim>\<open>try\<close> and disconnects in
  \<^verbatim>\<open>finally\<close>, ends disconnected whatever the print call did.
\<close>

theorem connection_closed_by_caller:
  "connection (snd (send_raw p d)) = connection p \<and>
   connection (snd (print_label_tspl p text cut_after w h g font x y)) = connection p \<and>
   connection (snd (print_image_tspl D p img w h g x y)) = connection p \<and>
   connection (snd (print_pdf D p pdf w h g dpi auto_rotate auto_crop invert coords flip_vertical)) =
     connection p \<and>
   \<not> is_connected (disconnect p) \<and>
   \<not> is_connected (do_print p job)"
  by (simp add: do_print_closed)

text \<open>
  C5 as stated fails: a text label printed on a connected printer returns True and the
  connection is still open.
\<close>

theorem print_leaves_connection_open_counterexample:
  "fst (print_label_tspl connected_printer ''abc'' True 40 30 2 ''2'' 10 10) \<and>
   is_connected (snd (print_label_tspl connected_printer ''abc'' True 40 30 2 ''2'' 10 10))"
  by (simp add: print_label_tspl_def is_connected_def send_text_def send_raw_success_iff
      connected_printer_fields)

section \<open>The manual crop\<close>

lemma scale_factor_two: "fl (fl (of_int render_dpi) / fl 150) = 2"
proof -
  have "fl (of_int 300) = of_int 300" "fl (of_int 150) = of_int 150" "fl (of_int 2) = of_int 2"
    by (rule fl_of_int, simp)+
  then show ?thesis by (simp add: render_dpi_def)
qed

lemma py_int_of_int [simp]: "py_int (of_int k) = k"
  by (simp add: py_int_def)

lemma scale_coord:
  assumes "\<bar>c\<bar> < 2 ^ 52"
  shows "py_int (fl (fl (of_int c) * 2)) = 2 * c"
proof -
  from assms have 1: "fl (of_int c) = of_int c" by (intro fl_of_int) simp
  from assms have 2: "fl (of_int (2 * c)) = of_int (2 * c)" by (intro fl_of_int) simp
  have "fl (of_int c) * 2 = of_int (2 * c)" by (simp add: 1)
  then have "py_int (fl (fl (of_int c) * 2)) = py_int (of_int (2 * c))" by (simp only: 2)
  then show ?thesis by (simp only: py_int_of_int)
qed

lemma manual_crop_box_eq:
  assumes "\<bar>left\<bar> < 2 ^ 52" "\<bar>upper\<bar> < 2 ^ 52" "\<bar>right\<bar> < 2 ^ 52" "\<bar>lower\<bar> < 2 ^ 52"
  shows "manual_crop_box (left, upper, right, lower) img =
           (max 0 (min (2 * left) (int (width img))), max 0 (min (2 * upper) (int (height img))),
            max 0 (min (2 * right) (int (width img))), max 0 (min (2 * lower) (int (height img))))"
  by (simp only: manual_crop_box_def scale_factor_two Let_def prod.case scale_coord [OF assms(1)]
      scale_coord [OF assms(2)] scale_coord [OF assms(3)] scale_coord [OF assms(4)])

text \<open>
  C8, as the code has it. Manual coordinates (below \<open>2 ^ 52\<close> in size, where the float
  product is exact) are each multiplied by exactly 2, the render resolution of 300 over
  150, whatever the target DPI of the label, and then clamped to the image, so that
  coordinates outside the image never raise. When coordinates are given the border
  heuristic is not consulted, whatever \<^verbatim>\<open>auto_crop\<close> says: the image is cropped to the
  clamped box if that has positive area, and left as it is otherwise.
\<close>

theorem manual_crop_rescale:
  "\<bar>left\<bar> < 2 ^ 52 \<and> \<bar>upper\<bar> < 2 ^ 52 \<and> \<bar>right\<bar> < 2 ^ 52 \<and> \<bar>lower\<bar> < 2 ^ 52 \<longrightarrow>
   manual_crop_box (left, upper, right, lower) img =
     (max 0 (min (2 * left) (int (width img))), max 0 (min (2 * upper) (int (height img))),
      max 0 (min (2 * right) (int (width img))), max 0 (min (2 * lower) (int (height img)))) \<and>
   crop_stage D img (Some (left, upper, right, lower)) auto_crop =
     Some (if max 0 (min (2 * right) (int (width img))) > max 0 (min (2 * left) (int (width img))) \<and>
              max 0 (min (2 * lower) (int (height img))) > max 0 (min (2 * upper) (int (height img)))
           then crop img (max 0 (min (2 * left) (int (width img))),
                          max 0 (min (2 * upper) (int (height img))),
                          max 0 (min (2 * right) (int (width img))),
                          max 0 (min (2 * lower) (int (height img))))
           else img)"
proof (intro impI, elim conjE)
  assume a: "\<bar>left\<bar> < 2 ^ 52" "\<bar>upper\<bar> < 2 ^ 52" "\<bar>right\<bar> < 2 ^ 52" "\<bar>lower\<bar> < 2 ^ 52"
  note b = manual_crop_box_eq [OF a, of img]
  show "manual_crop_box (left, upper, right, lower) img =
     (max 0 (min (2 * left) (int (width img))), max 0 (min (2 * upper) (int (height img))),
      max 0 (min (2 * right) (int (width img))), max 0 (min (2 * lower) (int (height img)))) \<and>
   crop_stage D img (Some (left, upper, right, lower)) auto_crop =
     Some (if max 0 (min (2 * right) (int (width img))) > max 0 (min (2 * left) (int (width img))) \<and>
              max 0 (min (2 * lower) (int (height img))) > max 0 (min (2 * upper) (int (height img)))
           then crop img (max 0 (min (2 * left) (int (width img))),
                          max 0 (min (2 * upper) (int (height img))),
                          max 0 (min (2 * right) (int (width img))),
                          max 0 (min (2 * lower) (int (height img))))
           else img)"
    by (simp only: crop_stage_def b option.case prod.case if_distrib [of Some] simp_thms)
qed

theorem manual_crop_rescale_witness:
  "\<bar>100 :: int\<bar> < 2 ^ 52 \<and> \<bar>300 :: int\<bar> < 2 ^ 52 \<and> \<bar>400 :: int\<bar> < 2 ^ 52 \<and>
   manual_crop_box (100, 100, 300, 400) letter_page = (200, 200, 600, 792) \<and>
   crop_stage sample_deps letter_page (Some (100, 100, 300, 400)) True =
     Some (crop letter_page (200, 200, 600, 792))"
  using manual_crop_rescale [of 100 100 300 400 letter_page sample_deps True]
  by (simp add: letter_page_def)

text \<open>
  C8 as stated fails: with the target DPI of 203 the factor would be 203/150 and the left
  edge 100 would become 135; the code makes it 200.
\<close>

theorem manual_crop_target_dpi_counterexample:
  "manual_crop_box (100, 100, 300, 400) letter_page \<noteq>
   spec_manual_crop_box 203 (100, 100, 300, 400) letter_page"
proof -
  have "fst (manual_crop_box (100, 100, 300, 400) letter_page) = 200"
    by (simp add: manual_crop_box_eq letter_page_def)
  moreover have "fst (spec_manual_crop_box 203 (100, 100, 300, 400) letter_page) = 135"
    by code_simp
  ultimately show ?thesis by auto
qed

section \<open>Rotation and scaling\<close>

lemma rotate_stage_eq:
  assumes "height img \<noteq> 0" and "th \<noteq> 0"
  shows "rotate_stage img tw th True =
           Some (if (width img > height img) = (tw > th) then img else rotate_90 img)"
    and "rotate_stage img tw th False = Some img"
  using assms by (simp_all add: rotate_stage_def Let_def)

lemma rotate_90_size: "width (rotate_90 img) = height img" "height (rotate_90 img) = width img"
  by (simp_all add: rotate_90_def)

lemma rotate_90_pixel:
  "x < width img \<Longrightarrow> pixel (rotate_90 img) y (width img - 1 - x) = pixel img x y"
  by (simp add: rotate_90_def)

lemma scale_w_letter: "fl (of_int 807 / of_int (int 612)) = 5938570096875801 / 4503599627370496"
  by code_simp

lemma scale_h_letter: "fl (of_int 1214 / of_int (int 792)) = 1725811220842103 / 1125899906842624"
  by code_simp

lemma new_width_letter:
  "py_int (fl (fl (of_int (int 612)) * (5938570096875801 / 4503599627370496))) = 807"
  by code_simp

lemma new_height_letter:
  "py_int (fl (fl (of_int (int 792)) * (5938570096875801 / 4503599627370496))) = 1044"
  by code_simp

lemma scaled_size_letter: "scaled_size 807 1214 612 792 = Some (807, 1044)"
proof -
  have m: "min (5938570096875801 / 4503599627370496 :: rat) (1725811220842103 / 1125899906842624) =
           5938570096875801 / 4503599627370496"
    by simp
  have z: "\<not> ((612::nat) = 0 \<or> (792::nat) = 0)" by simp
  show ?thesis
    unfolding scaled_size_def Let_def
    by (simp only: z if_False scale_w_letter scale_h_letter m new_width_letter new_height_letter)
qed

lemma centered_eq:
  "0 \<le> tw \<Longrightarrow> 0 \<le> th \<Longrightarrow>
   centered img tw th nw nh =
     Some (paste \<lparr>mode = ModeL, width = nat tw, height = nat th, pixel = (\<lambda>x y. 255)\<rparr> img
             ((tw - nw) div 2, (th - nh) div 2))"
  by (simp add: centered_def new_image_def Let_def)

lemma label_image_letter:
  assumes "crop_stage D img None auto_crop = Some src" and "width src = 612" and "height src = 792"
  shows "label_image D img 101 152 203 True auto_crop invert None flip_vertical =
           (case resize D (flip_stage src flip_vertical) (807, 1044) of
              None \<Rightarrow> None
            | Some scaled \<Rightarrow>
                Some (finish_stage
                       (paste \<lparr>mode = ModeL, width = 807, height = 1214, pixel = (\<lambda>x y. 255)\<rparr>
                          scaled (0, 85))
                       invert))"
proof -
  have r: "rotate_stage src 807 1214 True = Some src"
    using assms(2,3) by (simp add: rotate_stage_def)
  have s: "scaled_stage D img 101 152 203 True auto_crop None flip_vertical =
             (case resize D (flip_stage src flip_vertical) (807, 1044) of
                None \<Rightarrow> None | Some scaled \<Rightarrow> Some (scaled, 807, 1044))"
    by (simp add: scaled_stage_def assms target_dots_default r scaled_size_letter)
  have c: "compose_stage D scaled 807 1214 807 1044 None =
             Some (paste \<lparr>mode = ModeL, width = 807, height = 1214, pixel = (\<lambda>x y. 255)\<rparr>
                     scaled (0, 85))" for scaled
    by (simp add: compose_stage_def centered_eq)
  show ?thesis
    by (simp add: label_image_def s target_dots_default c split: option.splits)
qed


text \<open>
  C9, as the code has it. With \<^verbatim>\<open>auto_rotate\<close> on, the image is left as it is when it
  is landscape exactly if the label is, and is otherwise rotated by 90 degrees onto a
  canvas of the swapped size that keeps every pixel; with the option off it is never
  rotated. End to end, for a source of 612 by 792 and a label of 101 by 152 mm at 203 dpi:
  the target is 807 by 1214 dots, nothing is rotated, the image is resized to 807 by 1044
  (the scale is the smaller ratio, 807/612) and pasted on the white 807 by 1214 canvas at
  offset (0, 85), which centres it.
\<close>

theorem auto_rotate_and_fit:
  "(height img \<noteq> 0 \<and> th \<noteq> 0 \<longrightarrow>
      rotate_stage img tw th True =
        Some (if (width img > height img) = (tw > th) then img else rotate_90 img) \<and>
      rotate_stage img tw th False = Some img) \<and>
   width (rotate_90 img) = height img \<and> height (rotate_90 img) = width img \<and>
   (\<forall>x < width img. \<forall>y. pixel (rotate_90 img) y (width img - 1 - x) = pixel img x y) \<and>
   (crop_stage D page None auto_crop = Some src \<and> width src = 612 \<and> height src = 792 \<longrightarrow>
      target_dots 101 203 = 807 \<and> target_dots 152 203 = 1214 \<and>
      rotate_stage src 807 1214 True = Some src \<and>
      scaled_size 807 1214 612 792 = Some (807, 1044) \<and>
      label_image D page 101 152 203 True auto_crop invert None flip_vertical =
        (case resize D (flip_stage src flip_vertical) (807, 1044) of
           None \<Rightarrow> None
         | Some scaled \<Rightarrow>
             Some (finish_stage
                    (paste \<lparr>mode = ModeL, width = 807, height = 1214, pixel = (\<lambda>x y. 255)\<rparr>
                       scaled (0, 85))
                    invert)))"
proof (intro conjI impI allI)
  assume "height img \<noteq> 0 \<and> th \<noteq> 0"
  then show "rotate_stage img tw th True =
        Some (if (width img > height img) = (tw > th) then img else rotate_90 img)"
    and "rotate_stage img tw th False = Some img"
    by (simp_all add: rotate_stage_eq)
next
  show "width (rotate_90 img) = height img" "height (rotate_90 img) = width img"
    by (rule rotate_90_size)+
next
  fix x y
  assume "x < width img"
  then show "pixel (rotate_90 img) y (width img - 1 - x) = pixel img x y"
    by (rule rotate_90_pixel)
next
  assume a: "crop_stage D page None auto_crop = Some src \<and> width src = 612 \<and> height src = 792"
  show "target_dots 101 203 = 807" "target_dots 152 203 = 1214"
    by (rule target_dots_default)+
  show "rotate_stage src 807 1214 True = Some src"
    using a by (simp add: rotate_stage_def)
  show "scaled_size 807 1214 612 792 = Some (807, 1044)"
    by (rule scaled_size_letter)
  show "label_image D page 101 152 203 True auto_crop invert None flip_vertical =
        (case resize D (flip_stage src flip_vertical) (807, 1044) of
           None \<Rightarrow> None
         | Some scaled \<Rightarrow>
             Some (finish_stage
                    (paste \<lparr>mode = ModeL, width = 807, height = 1214, pixel = (\<lambda>x y. 255)\<rparr>
                       scaled (0, 85))
                    invert))"
    using a by (intro label_image_letter) simp_all
qed

theorem auto_rotate_and_fit_witness:
  "height letter_page \<noteq> 0 \<and> (1214::int) \<noteq> 0 \<and>
   rotate_stage letter_page 807 1214 True = Some letter_page \<and>
   rotate_stage (rotate_90 letter_page) 807 1214 True = Some (rotate_90 (rotate_90 letter_page)) \<and>
   crop_stage sample_deps letter_page None False = Some letter_page \<and>
   width letter_page = 612 \<and> height letter_page = 792 \<and>
   label_image sample_deps letter_page 101 152 203 True False False None False =
     Some (finish_stage
            (paste \<lparr>mode = ModeL, width = 807, height = 1214, pixel = (\<lambda>x y. 255)\<rparr>
               (letter_page\<lparr>width := 807, height := 1044\<rparr>) (0, 85))
            False)"
proof -
  have c: "crop_stage sample_deps letter_page None False = Some letter_page"
    by (simp add: crop_stage_def)
  have d: "width letter_page = 612" "height letter_page = 792"
    by (simp_all add: letter_page_def)
  have h: "height letter_page \<noteq> 0" "height (rotate_90 letter_page) \<noteq> 0"
    by (simp_all add: letter_page_def rotate_90_def)
  have z: "(1214::int) \<noteq> 0" by simp
  note t1 = auto_rotate_and_fit [of letter_page 1214 807 sample_deps letter_page False letter_page
      False False]
  note t2 = auto_rotate_and_fit [of "rotate_90 letter_page" 1214 807]
  have r1: "rotate_stage letter_page 807 1214 True = Some letter_page"
    using t1 h(1) z by (simp add: d)
  have r2: "rotate_stage (rotate_90 letter_page) 807 1214 True =
              Some (rotate_90 (rotate_90 letter_page))"
    using t2 h(2) z by (simp add: rotate_90_size d)
  have l: "label_image sample_deps letter_page 101 152 203 True False False None False =
     Some (finish_stage
            (paste \<lparr>mode = ModeL, width = 807, height = 1214, pixel = (\<lambda>x y. 255)\<rparr>
               (letter_page\<lparr>width := 807, height := 1044\<rparr>) (0, 85))
            False)"
    using t1 c d by (simp add: sample_deps_def flip_stage_def)
  from h(1) z r1 r2 c d l show ?thesis by (intro conjI)
qed

text \<open>
  C9 as stated fails in its numbers: the target is not (808, 1216), and the scaled size
  is not the one that \<open>min (808 / 612) (1216 / 792)\<close> gives, 808 by 1045.
\<close>

theorem letter_fit_counterexample:
  "(target_dots 101 203, target_dots 152 203) \<noteq> (808, 1216) \<and>
   scaled_size (target_dots 101 203) (target_dots 152 203) 612 792 \<noteq> Some spec_scaled_size"
proof -
  have f: "fst spec_scaled_size = 808" by code_simp
  have "spec_scaled_size \<noteq> (807, 1044)"
  proof
    assume e: "spec_scaled_size = (807, 1044)"
    have "fst spec_scaled_size = 807" by (simp only: e fst_conv)
    with f show False by simp
  qed
  then show ?thesis
    by (simp add: target_dots_default scaled_size_letter)
qed

section \<open>The second manual crop\<close>

lemma compose_stage_manual:
  assumes "max 0 (min right tw) > max 0 (min left tw)"
    and "max 0 (min lower th) > max 0 (min upper th)"
  shows "compose_stage D scaled tw th new_width new_height (Some (left, upper, right, lower)) =
           resize D
             (crop (paste \<lparr>mode = ModeL, width = nat tw, height = nat th, pixel = (\<lambda>x y. 255)\<rparr>
                      scaled ((tw - new_width) div 2, (th - new_height) div 2))
                   (max 0 (min left tw), max 0 (min upper th),
                    max 0 (min right tw), max 0 (min lower th)))
             (tw, th)"
proof -
  from assms have "0 \<le> tw" "0 \<le> th" by linarith+
  then have c: "centered scaled tw th new_width new_height =
      Some (paste \<lparr>mode = ModeL, width = nat tw, height = nat th, pixel = (\<lambda>x y. 255)\<rparr>
              scaled ((tw - new_width) div 2, (th - new_height) div 2))"
    by (rule centered_eq)
  show ?thesis
    using assms by (simp add: compose_stage_def Let_def c)
qed

lemma print_pdf_rendered:
  assumes "PDF_SUPPORT D" and "is_connected p"
  shows "print_pdf D p (Rendered img) w h g dpi auto_rotate auto_crop invert coords flip_vertical =
           (case label_image D img w h dpi auto_rotate auto_crop invert coords flip_vertical of
              None \<Rightarrow> (False, p)
            | Some final_image \<Rightarrow> print_image_tspl D p final_image w h g 0 0)"
  using assms by (simp add: print_pdf_def)

lemma crop_paste_region:
  assumes "0 \<le> l" and "0 \<le> u"
  shows "crop (paste \<lparr>mode = ModeL, width = nat tw, height = nat th, pixel = (\<lambda>x y. 255)\<rparr>
                 scaled (xo, yo)) (l, u, r, b) =
           \<lparr>mode = ModeL, width = nat (r - l), height = nat (b - u),
            pixel = (\<lambda>x y.
               if xo \<le> l + int x \<and> l + int x < xo + int (width scaled) \<and>
                  yo \<le> u + int y \<and> u + int y < yo + int (height scaled)
               then pixel scaled (nat (l + int x - xo)) (nat (u + int y - yo))
               else 255)\<rparr>"
  using assms by (simp add: crop_def paste_def fun_eq_iff)

lemma finish_stage_eq:
  "finish_stage stretched invert =
     \<lparr>mode = Mode1, width = width stretched, height = height stretched,
      pixel = (\<lambda>x y. if invert then 255 - (if pixel stretched x y < 128 then 0 else 255)
                      else (if pixel stretched x y < 128 then 0 else 255))\<rparr>"
  by (cases stretched) (simp add: finish_stage_def binarize_def invert_image_def Let_def fun_eq_iff)

lemma print_pdf_failed:
  "label_image D img w h dpi auto_rotate auto_crop invert coords flip_vertical = None \<Longrightarrow>
   print_pdf D p (Rendered img) w h g dpi auto_rotate auto_crop invert coords flip_vertical =
     (False, p)"
  by (simp add: print_pdf_def)

text \<open>
  C10. When manual coordinates are given and the pipeline has produced the scaled image,
  the same coordinates are used once more, unscaled and clamped to the target canvas. If
  the clamped box has positive area, the image handed to the final resize is the region of
  that box cut from the white target canvas with the scaled image pasted at the centring
  offset: it has the size of the box, and each of its pixels is the pixel of the scaled
  image that the offset puts there, or white. Unless the box is the whole canvas, this
  region is smaller than the target, and it is resized to the full target size whatever
  its shape. If the resize fails the print fails and nothing is written. Otherwise the
  label image is the resized region after the threshold at 128 and the optional
  inversion, and on a connected printer \<^verbatim>\<open>print_pdf\<close> writes the header, the bitmap
  of exactly this image, and the PRINT command. The Lanczos resize itself is Pillow's and
  stays a parameter.
\<close>

theorem manual_crop_second_pass:
  "scaled_stage D img w h dpi auto_rotate auto_crop (Some (left, upper, right, lower))
     flip_vertical = Some (scaled, new_width, new_height) \<and>
   tw = target_dots w dpi \<and> th = target_dots h dpi \<and>
   l = max 0 (min left tw) \<and> r = max 0 (min right tw) \<and>
   u = max 0 (min upper th) \<and> b = max 0 (min lower th) \<and>
   r > l \<and> b > u \<and>
   xo = (tw - new_width) div 2 \<and> yo = (th - new_height) div 2 \<and>
   region =
     \<lparr>mode = ModeL, width = nat (r - l), height = nat (b - u),
      pixel = (\<lambda>x y.
         if xo \<le> l + int x \<and> l + int x < xo + int (width scaled) \<and>
            yo \<le> u + int y \<and> u + int y < yo + int (height scaled)
         then pixel scaled (nat (l + int x - xo)) (nat (u + int y - yo))
         else 255)\<rparr> \<longrightarrow>
   compose_stage D scaled tw th new_width new_height (Some (left, upper, right, lower)) =
     resize D region (tw, th) \<and>
   ((l, u, r, b) \<noteq> (0, 0, tw, th) \<longrightarrow> (width region, height region) \<noteq> (nat tw, nat th)) \<and>
   (resize D region (tw, th) = None \<longrightarrow>
      label_image D img w h dpi auto_rotate auto_crop invert (Some (left, upper, right, lower))
        flip_vertical = None \<and>
      print_pdf D p (Rendered img) w h g dpi auto_rotate auto_crop invert
        (Some (left, upper, right, lower)) flip_vertical = (False, p)) \<and>
   (\<forall>stretched final_image.
      resize D region (tw, th) = Some stretched \<and>
      final_image =
        \<lparr>mode = Mode1, width = width stretched, height = height stretched,
         pixel = (\<lambda>x y. if invert then 255 - (if pixel stretched x y < 128 then 0 else 255)
                         else (if pixel stretched x y < 128 then 0 else 255))\<rparr> \<longrightarrow>
      label_image D img w h dpi auto_rotate auto_crop invert (Some (left, upper, right, lower))
        flip_vertical = Some final_image \<and>
      (PDF_SUPPORT D \<and> is_connected p \<longrightarrow>
         fst (print_pdf D p (Rendered img) w h g dpi auto_rotate auto_crop invert
                (Some (left, upper, right, lower)) flip_vertical) \<and>
         map fst (attempts (snd (print_pdf D p (Rendered img) w h g dpi auto_rotate auto_crop
                                   invert (Some (left, upper, right, lower)) flip_vertical))) =
           map fst (attempts p) @
           [utf8 (bitmap_header final_image w h g 0 0), bitmap_data final_image, utf8 print_cmd]))"
proof (intro impI, elim conjE)
  assume s: "scaled_stage D img w h dpi auto_rotate auto_crop (Some (left, upper, right, lower))
     flip_vertical = Some (scaled, new_width, new_height)"
    and tw: "tw = target_dots w dpi" and th: "th = target_dots h dpi"
    and l: "l = max 0 (min left tw)" and r: "r = max 0 (min right tw)"
    and u: "u = max 0 (min upper th)" and b: "b = max 0 (min lower th)"
    and pos: "r > l" "b > u"
    and xo: "xo = (tw - new_width) div 2" and yo: "yo = (th - new_height) div 2"
    and region: "region =
     \<lparr>mode = ModeL, width = nat (r - l), height = nat (b - u),
      pixel = (\<lambda>x y.
         if xo \<le> l + int x \<and> l + int x < xo + int (width scaled) \<and>
            yo \<le> u + int y \<and> u + int y < yo + int (height scaled)
         then pixel scaled (nat (l + int x - xo)) (nat (u + int y - yo))
         else 255)\<rparr>"
  have l0: "0 \<le> l" "0 \<le> u" by (simp_all add: l u)
  have reg: "crop (paste \<lparr>mode = ModeL, width = nat tw, height = nat th, pixel = (\<lambda>x y. 255)\<rparr>
                 scaled (xo, yo)) (l, u, r, b) = region"
    unfolding region using l0 by (rule crop_paste_region)
  have c: "compose_stage D scaled tw th new_width new_height (Some (left, upper, right, lower)) =
             resize D region (tw, th)"
    using compose_stage_manual [of left tw right upper th lower D scaled new_width new_height]
      pos
    by (simp only: reg [symmetric] l r u b xo yo)
  have li: "label_image D img w h dpi auto_rotate auto_crop invert
              (Some (left, upper, right, lower)) flip_vertical =
            map_option (\<lambda>stretched. finish_stage stretched invert) (resize D region (tw, th))"
    using c by (simp add: label_image_def s tw th split: option.splits)
  have size: "(width region, height region) \<noteq> (nat tw, nat th)" if "(l, u, r, b) \<noteq> (0, 0, tw, th)"
  proof -
    have "r \<le> tw" "b \<le> th" using pos l0 unfolding r b l u by linarith+
    with that pos l0 have "r - l < tw \<or> b - u < th" by auto
    then show ?thesis using pos by (auto simp: region)
  qed
  have none: "label_image D img w h dpi auto_rotate auto_crop invert
        (Some (left, upper, right, lower)) flip_vertical = None \<and>
      print_pdf D p (Rendered img) w h g dpi auto_rotate auto_crop invert
        (Some (left, upper, right, lower)) flip_vertical = (False, p)"
    if "resize D region (tw, th) = None"
    using that by (simp add: li print_pdf_failed)
  have some: "label_image D img w h dpi auto_rotate auto_crop invert
        (Some (left, upper, right, lower)) flip_vertical = Some final_image \<and>
      (PDF_SUPPORT D \<and> is_connected p \<longrightarrow>
         fst (print_pdf D p (Rendered img) w h g dpi auto_rotate auto_crop invert
                (Some (left, upper, right, lower)) flip_vertical) \<and>
         map fst (attempts (snd (print_pdf D p (Rendered img) w h g dpi auto_rotate auto_crop
                                   invert (Some (left, upper, right, lower)) flip_vertical))) =
           map fst (attempts p) @
           [utf8 (bitmap_header final_image w h g 0 0), bitmap_data final_image, utf8 print_cmd])"
    if a: "resize D region (tw, th) = Some stretched \<and>
      final_image =
        \<lparr>mode = Mode1, width = width stretched, height = height stretched,
         pixel = (\<lambda>x y. if invert then 255 - (if pixel stretched x y < 128 then 0 else 255)
                         else (if pixel stretched x y < 128 then 0 else 255))\<rparr>"
    for stretched final_image
  proof -
    from a have f: "final_image = finish_stage stretched invert"
      by (simp only: finish_stage_eq)
    from a have lf: "label_image D img w h dpi auto_rotate auto_crop invert
        (Some (left, upper, right, lower)) flip_vertical = Some final_image"
      by (simp add: li f)
    have m: "mode final_image = Mode1" using a by simp
    have "fst (print_pdf D p (Rendered img) w h g dpi auto_rotate auto_crop invert
                (Some (left, upper, right, lower)) flip_vertical) \<and>
         map fst (attempts (snd (print_pdf D p (Rendered img) w h g dpi auto_rotate auto_crop
                                   invert (Some (left, upper, right, lower)) flip_vertical))) =
           map fst (attempts p) @
           [utf8 (bitmap_header final_image w h g 0 0), bitmap_data final_image, utf8 print_cmd]"
      if d: "PDF_SUPPORT D \<and> is_connected p"
    proof -
      from d have "print_pdf D p (Rendered img) w h g dpi auto_rotate auto_crop invert
          (Some (left, upper, right, lower)) flip_vertical =
          print_image_tspl D p final_image w h g 0 0"
        by (simp add: print_pdf_rendered lf)
      with d m show ?thesis
        by (simp add: print_image_tspl_three_writes)
    qed
    with lf show ?thesis by blast
  qed
  from c size none some
  show "compose_stage D scaled tw th new_width new_height (Some (left, upper, right, lower)) =
     resize D region (tw, th) \<and>
   ((l, u, r, b) \<noteq> (0, 0, tw, th) \<longrightarrow> (width region, height region) \<noteq> (nat tw, nat th)) \<and>
   (resize D region (tw, th) = None \<longrightarrow>
      label_image D img w h dpi auto_rotate auto_crop invert (Some (left, upper, right, lower))
        flip_vertical = None \<and>
      print_pdf D p (Rendered img) w h g dpi auto_rotate auto_crop invert
        (Some (left, upper, right, lower)) flip_vertical = (False, p)) \<and>
   (\<forall>stretched final_image.
      resize D region (tw, th) = Some stretched \<and>
      final_image =
        \<lparr>mode = Mode1, width = width stretched, height = height stretched,
         pixel = (\<lambda>x y. if invert then 255 - (if pixel stretched x y < 128 then 0 else 255)
                         else (if pixel stretched x y < 128 then 0 else 255))\<rparr> \<longrightarrow>
      label_image D img w h dpi auto_rotate auto_crop invert (Some (left, upper, right, lower))
        flip_vertical = Some final_image \<and>
      (PDF_SUPPORT D \<and> is_connected p \<longrightarrow>
         fst (print_pdf D p (Rendered img) w h g dpi auto_rotate auto_crop invert
                (Some (left, upper, right, lower)) flip_vertical) \<and>
         map fst (attempts (snd (print_pdf D p (Rendered img) w h g dpi auto_rotate auto_crop
                                   invert (Some (left, upper, right, lower)) flip_vertical))) =
           map fst (attempts p) @
           [utf8 (bitmap_header final_image w h g 0 0), bitmap_data final_image, utf8 print_cmd]))"
    by blast
qed


text \<open>
  An instance in which the stretch shows: the striped page with the manual box
  (0, 0, 500, 700), under nearest-neighbour resizing. Column 150, white on the page and
  in the label image made without manual coordinates, is black in the label image made
  with them, because the 100 black columns of the box are stretched over 162.
\<close>

lemma fl_numeral: "(numeral n :: int) < 2 ^ 53 \<Longrightarrow> fl (numeral n) = numeral n"
  using fl_of_int [of "numeral n"] by simp

lemma fl_one: "fl 1 = 1"
  using fl_of_int [of 1] by simp

lemma scaled_size_label: "scaled_size 807 1214 807 1214 = Some (807, 1214)"
  by (simp add: scaled_size_def Let_def fl_one fl_numeral py_int_def)

lemma resize_stretch:
  "0 < w \<Longrightarrow> 0 < h \<Longrightarrow>
   resize stretch_deps img (w, h) = Some (nearest_image img (nat w) (nat h))"
  by (simp add: stretch_deps_def)

lemma scaled_stage_striped:
  "scaled_stage stretch_deps striped_page 101 152 203 True False (Some (0, 0, 500, 700)) False =
     Some (nearest_image (crop striped_page (0, 0, 807, 1214)) 807 1214, 807, 1214)"
proof -
  have b: "manual_crop_box (0, 0, 500, 700) striped_page = (0, 0, 807, 1214)"
    by (simp add: manual_crop_box_eq striped_page_def)
  have c: "crop_stage stretch_deps striped_page (Some (0, 0, 500, 700)) False =
             Some (crop striped_page (0, 0, 807, 1214))"
    by (simp add: crop_stage_def b)
  have w: "width (crop striped_page (0, 0, 807, 1214)) = 807"
    "height (crop striped_page (0, 0, 807, 1214)) = 1214"
    by (simp_all add: crop_def)
  have r: "rotate_stage (crop striped_page (0, 0, 807, 1214)) 807 1214 True =
             Some (crop striped_page (0, 0, 807, 1214))"
    by (simp add: rotate_stage_def w)
  have z: "resize stretch_deps (crop striped_page (0, 0, 807, 1214)) (807, 1214) =
             Some (nearest_image (crop striped_page (0, 0, 807, 1214)) 807 1214)"
    using resize_stretch [of 807 1214] by simp
  show ?thesis
    by (simp only: scaled_stage_def c option.case target_dots_default Let_def r w
        scaled_size_label prod.case flip_stage_def if_False z)
qed

lemma label_image_striped_plain:
  "label_image stretch_deps striped_page 101 152 203 True False False None False =
     Some (finish_stage
            (paste \<lparr>mode = ModeL, width = 807, height = 1214, pixel = (\<lambda>x y. 255)\<rparr>
               (nearest_image striped_page 807 1214) (0, 0))
            False)"
proof -
  have c: "crop_stage stretch_deps striped_page None False = Some striped_page"
    by (simp add: crop_stage_def)
  have w: "width striped_page = 807" "height striped_page = 1214"
    by (simp_all add: striped_page_def)
  have r: "rotate_stage striped_page 807 1214 True = Some striped_page"
    by (simp add: rotate_stage_def w)
  have z: "resize stretch_deps striped_page (807, 1214) =
             Some (nearest_image striped_page 807 1214)"
    using resize_stretch [of 807 1214] by simp
  have s: "scaled_stage stretch_deps striped_page 101 152 203 True False None False =
             Some (nearest_image striped_page 807 1214, 807, 1214)"
    by (simp only: scaled_stage_def c option.case target_dots_default Let_def r w
        scaled_size_label prod.case flip_stage_def if_False z)
  show ?thesis
    by (simp add: label_image_def s target_dots_default compose_stage_def centered_eq)
qed

theorem manual_crop_second_pass_witness:
  "scaled_stage stretch_deps striped_page 101 152 203 True False (Some (0, 0, 500, 700)) False =
     Some (nearest_image (crop striped_page (0, 0, 807, 1214)) 807 1214, 807, 1214) \<and>
   target_dots 101 203 = 807 \<and> target_dots 152 203 = 1214 \<and>
   max 0 (min 500 807) > max 0 (min 0 (807::int)) \<and>
   max 0 (min 700 1214) > max 0 (min 0 (1214::int)) \<and>
   PDF_SUPPORT stretch_deps \<and> is_connected connected_printer \<and>
   map_option (\<lambda>f. (mode f, width f, height f, pixel f 150 0, pixel f 200 0))
     (label_image stretch_deps striped_page 101 152 203 True False False
        (Some (0, 0, 500, 700)) False) =
     Some (Mode1, 807, 1214, 0, 255) \<and>
   map_option (\<lambda>f. (mode f, width f, height f, pixel f 150 0, pixel f 200 0))
     (label_image stretch_deps striped_page 101 152 203 True False False None False) =
     Some (Mode1, 807, 1214, 255, 255) \<and>
   fst (print_pdf stretch_deps connected_printer (Rendered striped_page) 101 152 2 203 True False
          False (Some (0, 0, 500, 700)) False) \<and>
   map_option
     (\<lambda>f. map fst (attempts (snd (print_pdf stretch_deps connected_printer (Rendered striped_page)
                                     101 152 2 203 True False False (Some (0, 0, 500, 700)) False))) =
          [utf8 (bitmap_header f 101 152 2 0 0), bitmap_data f, utf8 print_cmd])
     (label_image stretch_deps striped_page 101 152 203 True False False
        (Some (0, 0, 500, 700)) False) =
     Some True"
proof -
  define scaled where "scaled = nearest_image (crop striped_page (0, 0, 807, 1214)) 807 1214"
  define region where "region =
     \<lparr>mode = ModeL, width = nat (500 - 0), height = nat (700 - 0),
      pixel = (\<lambda>x y.
         if (0::int) \<le> 0 + int x \<and> 0 + int x < 0 + int (width scaled) \<and>
            (0::int) \<le> 0 + int y \<and> 0 + int y < 0 + int (height scaled)
         then pixel scaled (nat (0 + int x - 0)) (nat (0 + int y - 0))
         else 255)\<rparr>"
  define stretched where "stretched = nearest_image region 807 1214"
  define final_image where "final_image =
        \<lparr>mode = Mode1, width = width stretched, height = height stretched,
         pixel = (\<lambda>x y. if False then 255 - (if pixel stretched x y < 128 then 0 else 255)
                         else (if pixel stretched x y < 128 then 0 else 255))\<rparr>"
  note s = scaled_stage_striped [folded scaled_def]
  note td = target_dots_default
  have m: "max 0 (min 500 807) > max 0 (min 0 (807::int))"
    "max 0 (min 700 1214) > max 0 (min 0 (1214::int))"
    by simp_all
  have d: "PDF_SUPPORT stretch_deps" "is_connected connected_printer"
    by (simp_all add: stretch_deps_def)
  have z: "resize stretch_deps region (807, 1214) = Some stretched"
    using resize_stretch [of 807 1214 region] by (simp add: stretched_def)
  have hyp: "scaled_stage stretch_deps striped_page 101 152 203 True False (Some (0, 0, 500, 700))
       False = Some (scaled, 807, 1214) \<and>
     (807::int) = target_dots 101 203 \<and> (1214::int) = target_dots 152 203 \<and>
     (0::int) = max 0 (min 0 807) \<and> (500::int) = max 0 (min 500 807) \<and>
     (0::int) = max 0 (min 0 1214) \<and> (700::int) = max 0 (min 700 1214) \<and>
     (500::int) > 0 \<and> (700::int) > 0 \<and>
     (0::int) = (807 - 807) div 2 \<and> (0::int) = (1214 - 1214) div 2 \<and>
     region =
       \<lparr>mode = ModeL, width = nat (500 - 0), height = nat (700 - 0),
        pixel = (\<lambda>x y.
           if (0::int) \<le> 0 + int x \<and> 0 + int x < 0 + int (width scaled) \<and>
              (0::int) \<le> 0 + int y \<and> 0 + int y < 0 + int (height scaled)
           then pixel scaled (nat (0 + int x - 0)) (nat (0 + int y - 0))
           else 255)\<rparr>"
    using s by (simp add: td region_def)
  note t = manual_crop_second_pass [of stretch_deps striped_page 101 152 203 True False 0 0 500 700
      False scaled 807 1214 807 1214 0 500 0 700 0 0 region False connected_printer 2,
      THEN mp, OF hyp]
  note t4 = t [THEN conjunct2, THEN conjunct2, THEN conjunct2, rule_format, of stretched final_image]
  have t5: "label_image stretch_deps striped_page 101 152 203 True False False
        (Some (0, 0, 500, 700)) False = Some final_image \<and>
      (PDF_SUPPORT stretch_deps \<and> is_connected connected_printer \<longrightarrow>
         fst (print_pdf stretch_deps connected_printer (Rendered striped_page) 101 152 2 203 True
                False False (Some (0, 0, 500, 700)) False) \<and>
         map fst (attempts (snd (print_pdf stretch_deps connected_printer (Rendered striped_page)
                                   101 152 2 203 True False False (Some (0, 0, 500, 700)) False))) =
           map fst (attempts connected_printer) @
           [utf8 (bitmap_header final_image 101 152 2 0 0), bitmap_data final_image,
            utf8 print_cmd])"
    using z by (intro t4) (simp add: final_image_def)
  have lf: "label_image stretch_deps striped_page 101 152 203 True False False
        (Some (0, 0, 500, 700)) False = Some final_image"
    using t5 by blast
  have pr: "fst (print_pdf stretch_deps connected_printer (Rendered striped_page) 101 152 2 203 True
                False False (Some (0, 0, 500, 700)) False)"
    "map fst (attempts (snd (print_pdf stretch_deps connected_printer (Rendered striped_page)
                                   101 152 2 203 True False False (Some (0, 0, 500, 700)) False))) =
           [utf8 (bitmap_header final_image 101 152 2 0 0), bitmap_data final_image,
            utf8 print_cmd]"
    using t5 d by (simp_all add: connected_printer_fields)
  have px: "mode final_image = Mode1" "width final_image = 807" "height final_image = 1214"
    "pixel final_image 150 0 = 0" "pixel final_image 200 0 = 255"
    by (simp_all add: final_image_def stretched_def region_def scaled_def nearest_image_def
        crop_def striped_page_def)
  have a1: "map_option (\<lambda>f. (mode f, width f, height f, pixel f 150 0, pixel f 200 0))
     (label_image stretch_deps striped_page 101 152 203 True False False
        (Some (0, 0, 500, 700)) False) =
     Some (Mode1, 807, 1214, 0, 255)"
    by (simp add: lf px)
  have a2: "map_option (\<lambda>f. (mode f, width f, height f, pixel f 150 0, pixel f 200 0))
     (label_image stretch_deps striped_page 101 152 203 True False False None False) =
     Some (Mode1, 807, 1214, 255, 255)"
    unfolding label_image_striped_plain
    by (simp add: finish_stage_eq paste_def nearest_image_def striped_page_def)
  have a3: "map_option
     (\<lambda>f. map fst (attempts (snd (print_pdf stretch_deps connected_printer (Rendered striped_page)
                                     101 152 2 203 True False False (Some (0, 0, 500, 700)) False))) =
          [utf8 (bitmap_header f 101 152 2 0 0), bitmap_data f, utf8 print_cmd])
     (label_image stretch_deps striped_page 101 152 203 True False False
        (Some (0, 0, 500, 700)) False) =
     Some True"
    by (simp add: lf pr(2))
  from scaled_stage_striped td m d a1 a2 pr(1) a3 show ?thesis by (intro conjI)
qed

end
